theory Spec2Isabelle
  imports Main "HOL-Library.Word"
begin

unbundle bit_operations_syntax

section \<open>JavaScript values used by the Tughra class\<close>

text \<open>
  A JavaScript string is a sequence of UTF-16 code units. \<open>charCodeAt\<close> reads one
  unit as a number (\<open>NaN\<close> out of range, modelled as \<open>None\<close>), and
  \<open>String.fromCharCode\<close> applies \<open>ToUint16\<close> to its argument: \<open>NaN\<close> becomes 0 and
  an integer is reduced modulo \<open>2 ^ 16\<close>.
\<close>

type_synonym cu = "16 word"
type_synonym jsstring = "cu list"
type_synonym byte = "8 word"

text \<open>An ASCII literal of the source as a JavaScript string.\<close>

definition str :: "string \<Rightarrow> jsstring" where
  "str s = map of_char s"

datatype js_error =
    Error string
  | TypeError string
  | URIError
  | InvalidCharacterError

definition charCodeAt :: "jsstring \<Rightarrow> nat \<Rightarrow> int option" where
  "charCodeAt s i = (if i < length s then Some (uint (s ! i)) else None)"

definition fromCharCode :: "int option \<Rightarrow> cu" where
  "fromCharCode n = (case n of None \<Rightarrow> 0 | Some v \<Rightarrow> word_of_int v)"

text \<open>Number arithmetic with \<open>NaN\<close> as \<open>None\<close>; \<open>%\<close> truncates towards zero.\<close>

definition num_add :: "int option \<Rightarrow> int option \<Rightarrow> int option" where
  "num_add x y = (case (x, y) of (Some u, Some v) \<Rightarrow> Some (u + v) | _ \<Rightarrow> None)"

definition num_sub :: "int option \<Rightarrow> int option \<Rightarrow> int option" where
  "num_sub x y = (case (x, y) of (Some u, Some v) \<Rightarrow> Some (u - v) | _ \<Rightarrow> None)"

definition js_rem :: "int \<Rightarrow> int \<Rightarrow> int option" where
  "js_rem x y = (if y = 0 then None else Some (sgn x * (\<bar>x\<bar> mod \<bar>y\<bar>)))"

text \<open>\<open>x ^ y\<close> on numbers: \<open>ToInt32\<close> sends \<open>NaN\<close> to 0.\<close>

definition num_xor :: "int option \<Rightarrow> int option \<Rightarrow> int option" where
  "num_xor x y = Some ((case x of None \<Rightarrow> 0 | Some u \<Rightarrow> u) XOR (case y of None \<Rightarrow> 0 | Some v \<Rightarrow> v))"

text \<open>
  \<open>s.charCodeAt(i % s.length)\<close>: for the empty string \<open>i % 0\<close> is \<open>NaN\<close>, which
  \<open>charCodeAt\<close> reads as position 0, where the empty string has no unit.
\<close>

definition charCodeAtMod :: "jsstring \<Rightarrow> nat \<Rightarrow> int option" where
  "charCodeAtMod s i = charCodeAt s (if length s = 0 then 0 else i mod length s)"

text \<open>\<open>text.split('').map((char, index) => f(char, index)).join('')\<close> with one unit per \<open>f\<close>.\<close>

definition mapIndexed :: "(cu \<Rightarrow> nat \<Rightarrow> cu) \<Rightarrow> jsstring \<Rightarrow> jsstring" where
  "mapIndexed f text = map (\<lambda>i. f (text ! i) i) [0..<length text]"

section \<open>The engine object\<close>

text \<open>
  \<open>baseLibrary\<close> is the pair of closures returned by \<open>baseEncodeDecode\<close>; it closes over
  the alphabet and the chunk size, which is what the record keeps.
\<close>

record Library =
  alphabet :: jsstring
  chunkSize :: nat

record Tughra =
  keyOffsets :: jsstring
  mode :: string
  useBaseEncoding :: bool
  baseCharset :: jsstring
  baseLibrary :: Library
  encryptionKey :: "byte list"
  algorithm :: string
  substitutionKey :: "(cu \<times> cu) list"
  reverseSubstitutionKey :: "(cu \<times> cu) list"
  a :: int
  b :: int
  m :: int

section \<open>Variants on UTF-16 code units\<close>

subsection \<open>Default (Tughra) variant\<close>

text \<open>
  \<^verbatim>\<open>for (let i = 0; i < text.length; i++) {
    let charCode = text.charCodeAt(i);
    let offset = this.keyOffsets.charCodeAt(i % this.keyOffsets.length);
    encryptedText += String.fromCharCode(charCode + offset); }\<close>
\<close>

definition TughraEncrypt :: "Tughra \<Rightarrow> jsstring \<Rightarrow> jsstring" where
  "TughraEncrypt e text =
     map (\<lambda>i. fromCharCode (num_add (charCodeAt text i) (charCodeAtMod (keyOffsets e) i)))
       [0..<length text]"

definition TughraDecrypt :: "Tughra \<Rightarrow> jsstring \<Rightarrow> jsstring" where
  "TughraDecrypt e encryptedText =
     map (\<lambda>i. fromCharCode (num_sub (charCodeAt encryptedText i) (charCodeAtMod (keyOffsets e) i)))
       [0..<length encryptedText]"

subsection \<open>Shifts by the key length: caesar, ASCII, Unicode Shift\<close>

text \<open>\<open>this.encryptionKey\<close> is the \<open>Uint8Array\<close> of the key's UTF-8 bytes.\<close>

definition shiftBy :: "int \<Rightarrow> jsstring \<Rightarrow> jsstring" where
  "shiftBy k text = map (\<lambda>char. fromCharCode (Some (uint char + k))) text"

definition caesarEncrypt :: "Tughra \<Rightarrow> jsstring \<Rightarrow> jsstring" where
  "caesarEncrypt e text = shiftBy (int (length (encryptionKey e))) text"

definition caesarDecrypt :: "Tughra \<Rightarrow> jsstring \<Rightarrow> jsstring" where
  "caesarDecrypt e text = shiftBy (- int (length (encryptionKey e))) text"

definition encryptAsciiShift :: "Tughra \<Rightarrow> jsstring \<Rightarrow> jsstring" where
  "encryptAsciiShift e text = shiftBy (int (length (encryptionKey e))) text"

definition decryptAsciiShift :: "Tughra \<Rightarrow> jsstring \<Rightarrow> jsstring" where
  "decryptAsciiShift e text = shiftBy (- int (length (encryptionKey e))) text"

definition encryptUnicodeShift :: "Tughra \<Rightarrow> jsstring \<Rightarrow> jsstring" where
  "encryptUnicodeShift e text = shiftBy (int (length (encryptionKey e))) text"

definition decryptUnicodeShift :: "Tughra \<Rightarrow> jsstring \<Rightarrow> jsstring" where
  "decryptUnicodeShift e text = shiftBy (- int (length (encryptionKey e))) text"

subsection \<open>Latin letter rotations\<close>

text \<open>
  \<open>text.replace(/[A-Za-z]/g, f)\<close> applies \<open>f\<close> to every matching unit and keeps the others.
  \<open>char <= 'Z'\<close> compares one-unit strings, that is, code units.
\<close>

definition isLetter :: "cu \<Rightarrow> bool" where
  "isLetter c = ((65 \<le> c \<and> c \<le> 90) \<or> (97 \<le> c \<and> c \<le> 122))"

definition replaceLetters :: "(cu \<Rightarrow> cu) \<Rightarrow> jsstring \<Rightarrow> jsstring" where
  "replaceLetters f text = map (\<lambda>char. if isLetter char then f char else char) text"

definition baseOf :: "cu \<Rightarrow> int" where
  "baseOf char = (if char \<le> 90 then 65 else 97)"

text \<open>\<open>String.fromCharCode(((char.charCodeAt(0) - base + k) % 26) + base)\<close>\<close>

definition rot :: "int \<Rightarrow> cu \<Rightarrow> cu" where
  "rot k char = fromCharCode (num_add (js_rem (uint char - baseOf char + k) 26) (Some (baseOf char)))"

definition encryptROT13 :: "jsstring \<Rightarrow> jsstring" where
  "encryptROT13 text = replaceLetters (rot 13) text"

definition decryptROT13 :: "jsstring \<Rightarrow> jsstring" where
  "decryptROT13 text = encryptROT13 text"

definition encryptROT18 :: "jsstring \<Rightarrow> jsstring" where
  "encryptROT18 text = replaceLetters (rot 18) text"

definition decryptROT18 :: "jsstring \<Rightarrow> jsstring" where
  "decryptROT18 text = replaceLetters (rot (26 - 18)) text"

definition encryptROT25 :: "jsstring \<Rightarrow> jsstring" where
  "encryptROT25 text = replaceLetters (rot 25) text"

definition decryptROT25 :: "jsstring \<Rightarrow> jsstring" where
  "decryptROT25 text = replaceLetters (rot (26 - 25)) text"

definition encryptROT30 :: "jsstring \<Rightarrow> jsstring" where
  "encryptROT30 text = replaceLetters (rot 4) text"

text \<open>\<open>((char.charCodeAt(0) - base + 22) % 26 + 26) % 26 + base\<close>\<close>

definition decryptROT30 :: "jsstring \<Rightarrow> jsstring" where
  "decryptROT30 text =
     replaceLetters (\<lambda>char. fromCharCode (num_add
        (case js_rem (uint char - baseOf char + 22) 26 of
           None \<Rightarrow> None | Some r \<Rightarrow> js_rem (r + 26) 26)
        (Some (baseOf char)))) text"

subsection \<open>ROT47 and Atbash\<close>

text \<open>
  \<^verbatim>\<open>_encryptROT47(text) { return text.replace(/[!-~]/g, char =>
      String.fromCharCode(33 + ((char.charCodeAt(0) + 14) % 94))); }
_decryptROT47(text) { return this.encryptROT47(text); }\<close>
  The class has no property \<open>encryptROT47\<close> (the method is \<open>_encryptROT47\<close>), so the call in
  \<open>_decryptROT47\<close> throws a \<open>TypeError\<close> whatever the text is. \<open>_decryptAtbash\<close> calls the
  missing \<open>this.encryptAtbash\<close> in the same way.
\<close>

definition encryptROT47 :: "jsstring \<Rightarrow> jsstring" where
  "encryptROT47 text =
     map (\<lambda>char. if 33 \<le> char \<and> char \<le> 126
                  then fromCharCode (num_add (Some 33) (js_rem (uint char + 14) 94))
                  else char) text"

definition decryptROT47 :: "jsstring \<Rightarrow> js_error + jsstring" where
  "decryptROT47 text = Inl (TypeError ''this.encryptROT47 is not a function'')"

definition encryptAtbash :: "jsstring \<Rightarrow> jsstring" where
  "encryptAtbash text =
     replaceLetters (\<lambda>char. fromCharCode (Some (baseOf char + (25 - (uint char - baseOf char))))) text"

definition decryptAtbash :: "jsstring \<Rightarrow> js_error + jsstring" where
  "decryptAtbash text = Inl (TypeError ''this.encryptAtbash is not a function'')"

subsection \<open>Substitution tables\<close>

text \<open>\<open>this.substitutionKey[char] || char\<close>: every value of the table is a non-empty string.\<close>

definition substitute :: "(cu \<times> cu) list \<Rightarrow> jsstring \<Rightarrow> jsstring" where
  "substitute table text =
     map (\<lambda>char. case map_of table char of None \<Rightarrow> char | Some v \<Rightarrow> v) text"

definition encryptSubstitution :: "Tughra \<Rightarrow> jsstring \<Rightarrow> jsstring" where
  "encryptSubstitution e text = substitute (substitutionKey e) text"

definition decryptSubstitution :: "Tughra \<Rightarrow> jsstring \<Rightarrow> jsstring" where
  "decryptSubstitution e text = substitute (reverseSubstitutionKey e) text"

definition encryptSubstitutionPro :: "Tughra \<Rightarrow> jsstring \<Rightarrow> jsstring" where
  "encryptSubstitutionPro e text = substitute (substitutionKey e) text"

definition decryptSubstitutionPro :: "Tughra \<Rightarrow> jsstring \<Rightarrow> jsstring" where
  "decryptSubstitutionPro e text = substitute (reverseSubstitutionKey e) text"

subsection \<open>Affine variants\<close>

text \<open>
  \<^verbatim>\<open>_modInverse(a, m) {
    for (let x = 1; x < m; x++) { if ((a * x) % m === 1) { return x; } }
    return null; }\<close>
\<close>

definition modInverse :: "int \<Rightarrow> int \<Rightarrow> int option" where
  "modInverse a' m' = find (\<lambda>x. js_rem (a' * x) m' = Some 1) [1..m' - 1]"

text \<open>
  \<open>char === char.toUpperCase() ? 65 : 97\<close>, evaluated only for units that passed
  \<open>/[A-Za-z]/\<close>, where \<open>toUpperCase\<close> maps \<open>a..z\<close> to \<open>A..Z\<close> and fixes \<open>A..Z\<close>.
\<close>

definition toUpperCaseLetter :: "cu \<Rightarrow> cu" where
  "toUpperCaseLetter char = (if 97 \<le> char \<and> char \<le> 122 then char - 32 else char)"

definition caseBase :: "cu \<Rightarrow> int" where
  "caseBase char = (if char = toUpperCaseLetter char then 65 else 97)"

definition encryptAffine :: "Tughra \<Rightarrow> jsstring \<Rightarrow> jsstring" where
  "encryptAffine e text =
     replaceLetters (\<lambda>char. fromCharCode (num_add
        (js_rem (a e * (uint char - caseBase char) + b e) 26) (Some (caseBase char)))) text"

text \<open>
  \<open>((a_inv * (char.charCodeAt(0) - base - this.b + 26)) % 26 + 26) % 26 + base\<close>, with no
  check of \<open>a_inv\<close>: in the product \<open>null\<close> counts as 0.
\<close>

definition decryptAffine :: "Tughra \<Rightarrow> jsstring \<Rightarrow> jsstring" where
  "decryptAffine e text =
     (let a_inv = (case modInverse (a e) 26 of None \<Rightarrow> 0 | Some x \<Rightarrow> x) in
      replaceLetters (\<lambda>char. fromCharCode (num_add
        (case js_rem (a_inv * (uint char - caseBase char - b e + 26)) 26 of
           None \<Rightarrow> None | Some r \<Rightarrow> js_rem (r + 26) 26)
        (Some (caseBase char)))) text)"

definition encryptAffinePro :: "Tughra \<Rightarrow> jsstring \<Rightarrow> jsstring" where
  "encryptAffinePro e text =
     replaceLetters (\<lambda>char. fromCharCode (num_add
        (js_rem (a e * (uint char - caseBase char) + b e) (m e)) (Some (caseBase char)))) text"

text \<open>The message \<open>No modular inverse exists for the given key 'a'\<close>, which ends in a quote.\<close>

definition noInverseMessage :: string where
  "noInverseMessage = ''No modular inverse exists for the given key 'a'' @ [CHR 0x27]"

definition decryptAffinePro :: "Tughra \<Rightarrow> jsstring \<Rightarrow> js_error + jsstring" where
  "decryptAffinePro e text =
     (case modInverse (a e) (m e) of
        None \<Rightarrow> Inl (Error noInverseMessage)
      | Some aInv \<Rightarrow> Inr (replaceLetters (\<lambda>char. fromCharCode (num_add
          (js_rem (aInv * (uint char - caseBase char - b e + m e)) (m e))
          (Some (caseBase char)))) text))"

subsection \<open>XOR Pro and Reversed Caesar\<close>

definition encryptXORPro :: "jsstring \<Rightarrow> jsstring \<Rightarrow> jsstring" where
  "encryptXORPro text key =
     mapIndexed (\<lambda>char index. fromCharCode (num_xor (Some (uint char)) (charCodeAtMod key index))) text"

definition decryptXORPro :: "jsstring \<Rightarrow> jsstring \<Rightarrow> jsstring" where
  "decryptXORPro text key = encryptXORPro text key"

definition encryptReversedCaesar :: "Tughra \<Rightarrow> jsstring \<Rightarrow> jsstring" where
  "encryptReversedCaesar e text =
     replaceLetters (\<lambda>char. fromCharCode (num_add
        (js_rem (25 - (uint char - baseOf char) + int (length (encryptionKey e))) 26)
        (Some (baseOf char)))) text"

definition decryptReversedCaesar :: "Tughra \<Rightarrow> jsstring \<Rightarrow> jsstring" where
  "decryptReversedCaesar e text =
     replaceLetters (\<lambda>char. fromCharCode (num_add
        (js_rem (25 - (uint char - baseOf char) - int (length (encryptionKey e)) + 26) 26)
        (Some (baseOf char)))) text"

section \<open>Host functions: UTF-8, Base64, parseInt\<close>

subsection \<open>Iterating a string by code points\<close>

definition isHigh :: "cu \<Rightarrow> bool" where
  "isHigh c = (0xD800 \<le> c \<and> c \<le> 0xDBFF)"

definition isLow :: "cu \<Rightarrow> bool" where
  "isLow c = (0xDC00 \<le> c \<and> c \<le> 0xDFFF)"

text \<open>
  The string iterator (used by \<open>new Set(encryptionKey)\<close>) yields one item per code point:
  a surrogate pair stays together, a lone surrogate is an item of its own.
\<close>

fun stringIterator :: "jsstring \<Rightarrow> jsstring list" where
  "stringIterator [] = []"
| "stringIterator [c] = [[c]]"
| "stringIterator (h # l # rest) =
     (if isHigh h \<and> isLow l then [h, l] # stringIterator rest
      else [h] # stringIterator (l # rest))"

definition isLoneSurrogate :: "jsstring \<Rightarrow> bool" where
  "isLoneSurrogate item = (case item of [c] \<Rightarrow> isHigh c \<or> isLow c | _ \<Rightarrow> False)"

definition codePointOf :: "jsstring \<Rightarrow> nat" where
  "codePointOf item =
     (case item of
        [c] \<Rightarrow> unat c
      | [h, l] \<Rightarrow> 0x10000 + (unat h - 0xD800) * 1024 + (unat l - 0xDC00)
      | _ \<Rightarrow> 0)"

definition utf16 :: "nat \<Rightarrow> jsstring" where
  "utf16 cp =
     (if cp < 0x10000 then [of_nat cp]
      else [of_nat (0xD800 + (cp - 0x10000) div 1024), of_nat (0xDC00 + (cp - 0x10000) mod 1024)])"

subsection \<open>UTF-8\<close>

definition utf8 :: "nat \<Rightarrow> byte list" where
  "utf8 cp =
     (if cp < 0x80 then [of_nat cp]
      else if cp < 0x800 then [of_nat (0xC0 + cp div 64), of_nat (0x80 + cp mod 64)]
      else if cp < 0x10000 then
        [of_nat (0xE0 + cp div 4096), of_nat (0x80 + cp div 64 mod 64), of_nat (0x80 + cp mod 64)]
      else
        [of_nat (0xF0 + cp div 262144), of_nat (0x80 + cp div 4096 mod 64),
         of_nat (0x80 + cp div 64 mod 64), of_nat (0x80 + cp mod 64)])"

text \<open>\<open>new TextEncoder().encode(s)\<close>: a lone surrogate is encoded as U+FFFD.\<close>

definition TextEncoder_encode :: "jsstring \<Rightarrow> byte list" where
  "TextEncoder_encode s =
     concat (map (\<lambda>item. if isLoneSurrogate item then utf8 0xFFFD else utf8 (codePointOf item))
       (stringIterator s))"

text \<open>
  \<open>unescape(encodeURIComponent(text))\<close>: the UTF-8 bytes of the text, one unit per byte;
  \<open>encodeURIComponent\<close> throws a \<open>URIError\<close> on a lone surrogate.
\<close>

definition unescape_encodeURIComponent :: "jsstring \<Rightarrow> js_error + jsstring" where
  "unescape_encodeURIComponent text =
     (if \<exists>item \<in> set (stringIterator text). isLoneSurrogate item then Inl URIError
      else Inr (map ucast (concat (map (\<lambda>item. utf8 (codePointOf item)) (stringIterator text)))))"

text \<open>
  \<open>decodeURIComponent(escape(s))\<close> for a string \<open>s\<close> of units below 256 (all that
  \<open>Library.decode\<close> produces): the strict UTF-8 decoding of \<open>s\<close> read as bytes. A lead byte
  with one or more than four leading 1 bits, a missing or malformed continuation byte, an
  overlong form, a surrogate or a value above U+10FFFF throw a \<open>URIError\<close>.
  \<open>decodeOctets b bs\<close> decodes the code point that starts with byte \<open>b\<close> and returns it
  with the number of continuation bytes.
\<close>

definition isContinuation :: "nat \<Rightarrow> bool" where
  "isContinuation x = (0x80 \<le> x \<and> x < 0xC0)"

definition decodeOctets :: "nat \<Rightarrow> nat list \<Rightarrow> (nat \<times> nat) option" where
  "decodeOctets b0 bs =
     (if b0 < 0x80 then Some (b0, 0)
      else if b0 < 0xC0 \<or> 0xF8 \<le> b0 then None
      else
        (let k = (if b0 < 0xE0 then 1 else if b0 < 0xF0 then 2 else 3);
             lead = (if b0 < 0xE0 then b0 - 0xC0 else if b0 < 0xF0 then b0 - 0xE0 else b0 - 0xF0);
             lowest = (if b0 < 0xE0 then 0x80 else if b0 < 0xF0 then 0x800 else 0x10000);
             conts = take k bs;
             cp = foldl (\<lambda>acc x. acc * 64 + (x - 0x80)) lead conts
         in if length conts < k \<or> \<not> list_all isContinuation conts then None
            else if cp < lowest \<or> (0xD800 \<le> cp \<and> cp \<le> 0xDFFF) \<or> 0x10FFFF < cp then None
            else Some (cp, k)))"

fun utf8_strict :: "nat list \<Rightarrow> js_error + jsstring" where
  "utf8_strict [] = Inr []"
| "utf8_strict (b0 # bs) =
     (case decodeOctets b0 bs of
        None \<Rightarrow> Inl URIError
      | Some (cp, k) \<Rightarrow>
          (case utf8_strict (drop k bs) of
             Inl err \<Rightarrow> Inl err
           | Inr rest \<Rightarrow> Inr (utf16 cp @ rest)))"

definition decodeURIComponent_escape :: "jsstring \<Rightarrow> js_error + jsstring" where
  "decodeURIComponent_escape s = utf8_strict (map unat s)"

text \<open>
  \<open>new TextDecoder().decode(bytes)\<close>: the UTF-8 decoder of the Encoding standard, not fatal.
  A malformed sequence gives U+FFFD and the byte that broke it is read again; a leading byte
  order mark is dropped. The state is the number of bytes still needed, the code point so
  far and the bounds of the next byte.
\<close>

function TextDecoder_loop :: "nat \<Rightarrow> nat \<Rightarrow> nat \<Rightarrow> nat \<Rightarrow> nat list \<Rightarrow> nat list" where
  "TextDecoder_loop needed cp lower upper [] = (if needed = 0 then [] else [0xFFFD])"
| "TextDecoder_loop needed cp lower upper (x # xs) =
     (if needed = 0 then
        (if x < 0x80 then x # TextDecoder_loop 0 0 0x80 0xBF xs
         else if 0xC2 \<le> x \<and> x \<le> 0xDF then TextDecoder_loop 1 (x mod 32) 0x80 0xBF xs
         else if 0xE0 \<le> x \<and> x \<le> 0xEF then
           TextDecoder_loop 2 (x mod 16) (if x = 0xE0 then 0xA0 else 0x80)
             (if x = 0xED then 0x9F else 0xBF) xs
         else if 0xF0 \<le> x \<and> x \<le> 0xF4 then
           TextDecoder_loop 3 (x mod 8) (if x = 0xF0 then 0x90 else 0x80)
             (if x = 0xF4 then 0x8F else 0xBF) xs
         else 0xFFFD # TextDecoder_loop 0 0 0x80 0xBF xs)
      else if x < lower \<or> upper < x then 0xFFFD # TextDecoder_loop 0 0 0x80 0xBF (x # xs)
      else if needed = 1 then (cp * 64 + x mod 64) # TextDecoder_loop 0 0 0x80 0xBF xs
      else TextDecoder_loop (needed - 1) (cp * 64 + x mod 64) 0x80 0xBF xs)"
  by pat_completeness auto
termination
  by (relation "measure (\<lambda>(needed, cp, lower, upper, xs). 2 * length xs + (if needed = 0 then 0 else 1))")
     auto

definition TextDecoder_decode :: "byte list \<Rightarrow> jsstring" where
  "TextDecoder_decode bytes =
     (let xs = map unat bytes;
          ys = (if take 3 xs = [0xEF, 0xBB, 0xBF] then drop 3 xs else xs)
      in concat (map utf16 (TextDecoder_loop 0 0 0x80 0xBF ys)))"

subsection \<open>btoa and atob\<close>

definition b64char :: "nat \<Rightarrow> cu" where
  "b64char v =
     (if v < 26 then of_nat (65 + v) else if v < 52 then of_nat (97 + (v - 26))
      else if v < 62 then of_nat (48 + (v - 52)) else if v = 62 then 43 else 47)"

fun b64encode :: "nat list \<Rightarrow> jsstring" where
  "b64encode [] = []"
| "b64encode [x] = [b64char (x div 4), b64char (x mod 4 * 16), 61, 61]"
| "b64encode [x, y] =
     [b64char (x div 4), b64char (x mod 4 * 16 + y div 16), b64char (y mod 16 * 4), 61]"
| "b64encode (x # y # z # rest) =
     [b64char (x div 4), b64char (x mod 4 * 16 + y div 16),
      b64char (y mod 16 * 4 + z div 64), b64char (z mod 64)] @ b64encode rest"

text \<open>\<open>btoa\<close> throws an \<open>InvalidCharacterError\<close> on a unit above 0xFF.\<close>

definition btoa :: "jsstring \<Rightarrow> js_error + jsstring" where
  "btoa s = (if \<exists>c \<in> set s. 0xFF < c then Inl InvalidCharacterError
             else Inr (b64encode (map unat s)))"

definition b64value :: "cu \<Rightarrow> nat option" where
  "b64value c =
     (if 65 \<le> c \<and> c \<le> 90 then Some (unat c - 65)
      else if 97 \<le> c \<and> c \<le> 122 then Some (unat c - 71)
      else if 48 \<le> c \<and> c \<le> 57 then Some (unat c + 4)
      else if c = 43 then Some 62 else if c = 47 then Some 63 else None)"

fun b64decode :: "nat list \<Rightarrow> nat list" where
  "b64decode (p # q # r # s # rest) =
     [p * 4 + q div 16, q mod 16 * 16 + r div 4, r mod 4 * 64 + s] @ b64decode rest"
| "b64decode [p, q, r] = [p * 4 + q div 16, q mod 16 * 16 + r div 4]"
| "b64decode [p, q] = [p * 4 + q div 16]"
| "b64decode _ = []"

text \<open>
  \<open>atob\<close> is the forgiving Base64 decoder: ASCII whitespace is removed, one or two
  closing \<open>=\<close> are dropped when the length is a multiple of 4, and a length of 1 modulo 4
  or a unit outside the Base64 alphabet throw an \<open>InvalidCharacterError\<close>.
\<close>

definition atob :: "jsstring \<Rightarrow> js_error + jsstring" where
  "atob s =
     (let d = filter (\<lambda>c. c \<notin> {9, 10, 12, 13, 32}) s;
          d1 = (if length d mod 4 = 0 \<and> d \<noteq> [] \<and> last d = 61 then butlast d else d);
          d2 = (if length d mod 4 = 0 \<and> d1 \<noteq> d \<and> d1 \<noteq> [] \<and> last d1 = 61 then butlast d1 else d1)
      in if length d2 mod 4 = 1 \<or> (\<exists>c \<in> set d2. b64value c = None) then Inl InvalidCharacterError
         else Inr (map of_nat (b64decode (map (\<lambda>c. the (b64value c)) d2))))"

subsection \<open>Numbers as text\<close>

function decimalDigits :: "nat \<Rightarrow> jsstring" where
  "decimalDigits n = (if n < 10 then [of_nat (48 + n)] else decimalDigits (n div 10) @ [of_nat (48 + n mod 10)])"
  by pat_completeness auto
termination
  by (relation "measure id") auto

declare decimalDigits.simps [simp del]

definition isWhiteSpace :: "cu \<Rightarrow> bool" where
  "isWhiteSpace c =
     (c \<in> {0x9, 0xA, 0xB, 0xC, 0xD, 0x20, 0xA0, 0x1680, 0x2028, 0x2029, 0x202F, 0x205F, 0x3000, 0xFEFF}
      \<or> (0x2000 \<le> c \<and> c \<le> 0x200A))"

definition digitValue :: "cu \<Rightarrow> nat option" where
  "digitValue c =
     (if 48 \<le> c \<and> c \<le> 57 then Some (unat c - 48)
      else if 97 \<le> c \<and> c \<le> 122 then Some (unat c - 87)
      else if 65 \<le> c \<and> c \<le> 90 then Some (unat c - 55)
      else None)"

definition isDigitIn :: "nat \<Rightarrow> cu \<Rightarrow> bool" where
  "isDigitIn radix c = (case digitValue c of None \<Rightarrow> False | Some v \<Rightarrow> v < radix)"

text \<open>
  A Number is a double: an integer of more than 53 bits is rounded to 53 significant
  bits, ties to even, and is infinite (\<open>None\<close>) from \<open>2 ^ 1024\<close> on.
\<close>

function bitLength :: "nat \<Rightarrow> nat" where
  "bitLength n = (if n = 0 then 0 else Suc (bitLength (n div 2)))"
  by pat_completeness auto
termination
  by (relation "measure id") auto

declare bitLength.simps [simp del]

definition roundToDouble :: "nat \<Rightarrow> nat option" where
  "roundToDouble n =
     (if bitLength n \<le> 53 then Some n
      else
        (let sh = bitLength n - 53;
             q = n div 2 ^ sh;
             r = n mod 2 ^ sh;
             q' = (if 2 ^ (sh - 1) < r \<or> (r = 2 ^ (sh - 1) \<and> odd q) then q + 1 else q);
             v = q' * 2 ^ sh
         in if 2 ^ 1024 \<le> v then None else Some v))"

text \<open>
  \<open>String.fromCharCode(parseInt(num))\<close>: \<open>parseInt\<close> skips leading white space, reads a
  sign and a \<open>0x\<close> prefix, and takes the longest run of digits of the radix; no digit gives
  \<open>NaN\<close>. \<open>ToUint16\<close> sends \<open>NaN\<close> and the infinities to 0.
\<close>

definition parseInt :: "jsstring \<Rightarrow> int option" where
  "parseInt input =
     (let s = dropWhile isWhiteSpace input;
          negative = (s \<noteq> [] \<and> hd s = 45);
          s1 = (if s \<noteq> [] \<and> (hd s = 43 \<or> hd s = 45) then tl s else s);
          hex = (2 \<le> length s1 \<and> hd s1 = 48 \<and> (s1 ! 1 = 120 \<or> s1 ! 1 = 88));
          radix = (if hex then 16 else 10);
          s2 = (if hex then drop 2 s1 else s1);
          z = takeWhile (isDigitIn radix) s2
      in if z = [] then None
         else (case roundToDouble (foldl (\<lambda>acc c. acc * radix + the (digitValue c)) 0 z) of
                 None \<Rightarrow> None
               | Some v \<Rightarrow> Some (if negative then - int v else int v)))"

section \<open>Variants built on host functions\<close>

fun join :: "jsstring \<Rightarrow> jsstring list \<Rightarrow> jsstring" where
  "join sep [] = []"
| "join sep [x] = x"
| "join sep (x # y # rest) = x @ sep @ join sep (y # rest)"

text \<open>\<open>s.split('-')\<close>: the empty string splits into one empty piece.\<close>

fun split :: "cu \<Rightarrow> jsstring \<Rightarrow> jsstring list" where
  "split sep [] = [[]]"
| "split sep (c # cs) =
     (if c = sep then [] # split sep cs
      else (c # hd (split sep cs)) # tl (split sep cs))"

subsection \<open>Numeric\<close>

definition encryptNumeric :: "jsstring \<Rightarrow> jsstring" where
  "encryptNumeric text = join (str ''-'') (map (\<lambda>char. decimalDigits (unat char)) text)"

definition decryptNumeric :: "jsstring \<Rightarrow> jsstring" where
  "decryptNumeric numbers = map (\<lambda>num. fromCharCode (parseInt num)) (split 45 numbers)"

subsection \<open>Base64\<close>

definition encryptBase64 :: "jsstring \<Rightarrow> js_error + jsstring" where
  "encryptBase64 text = btoa text"

definition decryptBase64 :: "jsstring \<Rightarrow> js_error + jsstring" where
  "decryptBase64 base64 = atob base64"

subsection \<open>vigenere and xor on UTF-8 bytes\<close>

text \<open>
  \<open>key[i % key.length]\<close> on a \<open>Uint8Array\<close>: \<open>undefined\<close> for the empty array. A value
  stored into a \<open>Uint8Array\<close> is reduced by \<open>ToUint8\<close> (\<open>NaN\<close> becomes 0).
\<close>

definition byteAtMod :: "byte list \<Rightarrow> nat \<Rightarrow> int option" where
  "byteAtMod key i = (if length key = 0 then None else Some (uint (key ! (i mod length key))))"

definition toUint8 :: "int option \<Rightarrow> byte" where
  "toUint8 n = (case n of None \<Rightarrow> 0 | Some v \<Rightarrow> word_of_int v)"

definition mapBytes :: "(byte \<Rightarrow> nat \<Rightarrow> int option) \<Rightarrow> byte list \<Rightarrow> byte list" where
  "mapBytes f bytes = map (\<lambda>i. toUint8 (f (bytes ! i) i)) [0..<length bytes]"

text \<open>
  \<^verbatim>\<open>const encryptedBytes = textBytes.map((byte, i) =>
    (byte + this.encryptionKey[i % this.encryptionKey.length]) % 256);
return this._arrayBufferToBase64(encryptedBytes);\<close>
\<close>

definition vigenereEncrypt :: "Tughra \<Rightarrow> jsstring \<Rightarrow> js_error + jsstring" where
  "vigenereEncrypt e text =
     (let textBytes = TextEncoder_encode text;
          encryptedBytes = mapBytes (\<lambda>byte i.
            case num_add (Some (uint byte)) (byteAtMod (encryptionKey e) i) of
              None \<Rightarrow> None | Some v \<Rightarrow> js_rem v 256) textBytes
      in btoa (map ucast encryptedBytes))"

definition vigenereDecrypt :: "Tughra \<Rightarrow> jsstring \<Rightarrow> js_error + jsstring" where
  "vigenereDecrypt e encryptedText =
     (case atob encryptedText of
        Inl err \<Rightarrow> Inl err
      | Inr binaryString \<Rightarrow>
          (let encryptedBytes = map ucast binaryString;
               decryptedBytes = mapBytes (\<lambda>byte i.
                 case num_sub (Some (uint byte)) (byteAtMod (encryptionKey e) i) of
                   None \<Rightarrow> None | Some v \<Rightarrow> js_rem (v + 256) 256) encryptedBytes
           in Inr (TextDecoder_decode decryptedBytes)))"

text \<open>
  In \<open>_xorEncrypt\<close> and \<open>_xorDecrypt\<close> the key bytes are
  \<open>new TextEncoder().encode(this.encryptionKey)\<close>, where \<open>this.encryptionKey\<close> is already a
  \<open>Uint8Array\<close>: it is first turned into a string, its elements in decimal joined by commas.
\<close>

definition xorKeyBytes :: "Tughra \<Rightarrow> byte list" where
  "xorKeyBytes e =
     TextEncoder_encode (join (str '','') (map (\<lambda>x. decimalDigits (unat x)) (encryptionKey e)))"

definition xorEncrypt :: "Tughra \<Rightarrow> jsstring \<Rightarrow> js_error + jsstring" where
  "xorEncrypt e text =
     (let textBytes = TextEncoder_encode text;
          keyBytes = xorKeyBytes e;
          encryptedBytes = mapBytes (\<lambda>byte i. num_xor (Some (uint byte)) (byteAtMod keyBytes i)) textBytes
      in btoa (map ucast encryptedBytes))"

definition xorDecrypt :: "Tughra \<Rightarrow> jsstring \<Rightarrow> js_error + jsstring" where
  "xorDecrypt e encryptedText =
     (case atob encryptedText of
        Inl err \<Rightarrow> Inl err
      | Inr binaryString \<Rightarrow>
          (let encryptedBytes = map ucast binaryString;
               keyBytes = xorKeyBytes e;
               decryptedBytes = mapBytes (\<lambda>byte i. num_xor (Some (uint byte)) (byteAtMod keyBytes i))
                 encryptedBytes
           in Inr (TextDecoder_decode decryptedBytes)))"

section \<open>The base codec\<close>

text \<open>
  The codec works on strings of the characters \<open>0\<close> and \<open>1\<close>; they are lists of bits
  here. \<open>toBinary\<close> is \<open>n.toString(2)\<close>, \<open>parseBinary\<close> is \<open>parseInt(chunk, 2)\<close>, which
  is \<open>NaN\<close> on the empty string.
\<close>

type_synonym binary = "bool list"

function toBinary :: "nat \<Rightarrow> binary" where
  "toBinary n = (if n < 2 then [n = 1] else toBinary (n div 2) @ [odd n])"
  by pat_completeness auto
termination
  by (relation "measure id") auto

declare toBinary.simps [simp del]

definition padStart :: "nat \<Rightarrow> binary \<Rightarrow> binary" where
  "padStart k bits = replicate (k - length bits) False @ bits"

definition padEnd :: "nat \<Rightarrow> binary \<Rightarrow> binary" where
  "padEnd k bits = bits @ replicate (k - length bits) False"

definition binaryValue :: "binary \<Rightarrow> nat" where
  "binaryValue bits = foldl (\<lambda>acc bit. 2 * acc + (if bit then 1 else 0)) 0 bits"

definition parseBinary :: "binary \<Rightarrow> nat option" where
  "parseBinary chunk = (if chunk = [] then None else Some (binaryValue chunk))"

text \<open>
  \<open>Math.ceil(Math.log(base))\<close> with the natural logarithm: the number of \<open>k\<close> with
  \<open>\<lfloor>exp k\<rfloor> < base\<close>. The table lists \<open>\<lfloor>exp k\<rfloor>\<close> for \<open>k\<close> from 0 to 22, which
  covers every string length a JavaScript engine allows.
\<close>

definition expFloors :: "nat list" where
  "expFloors = [1, 2, 7, 20, 54, 148, 403, 1096, 2980, 8103, 22026, 59874, 162754, 442413,
     1202604, 3269017, 8886110, 24154952, 65659969, 178482300, 485165195, 1318815734,
     3584912846]"

definition ceilLog :: "nat \<Rightarrow> nat" where
  "ceilLog base = length (filter (\<lambda>t. t < base) expFloors)"

definition baseEncodeDecode :: "jsstring \<Rightarrow> Library" where
  "baseEncodeDecode alphabet' = \<lparr> alphabet = alphabet', chunkSize = ceilLog (length alphabet') \<rparr>"

text \<open>\<open>output += alphabet[index]\<close>: out of range the string \<open>undefined\<close> is appended.\<close>

definition alphabetAt :: "Library \<Rightarrow> nat option \<Rightarrow> jsstring" where
  "alphabetAt lib index =
     (case index of
        None \<Rightarrow> str ''undefined''
      | Some i \<Rightarrow> if i < length (alphabet lib) then [alphabet lib ! i] else str ''undefined'')"

text \<open>
  \<^verbatim>\<open>for (let i = 0; i < binary.length; i += chunkSize) {
    const chunk = binary.substring(i, i + chunkSize).padEnd(chunkSize, '0');
    const index = parseInt(chunk, 2);
    output += alphabet[index]; }\<close>
  With a chunk size of 0 (an alphabet of one symbol) the loop does not advance; not
  returning is the value \<open>None\<close>.
\<close>

partial_function (option) encode_loop :: "Library \<Rightarrow> binary \<Rightarrow> nat \<Rightarrow> jsstring \<Rightarrow> jsstring option" where
  "encode_loop lib binary' i output =
     (if i < length binary' then
        encode_loop lib binary' (i + chunkSize lib)
          (output @ alphabetAt lib
             (parseBinary (padEnd (chunkSize lib) (take (chunkSize lib) (drop i binary')))))
      else Some output)"

declare encode_loop.simps [code]

definition textToBinary :: "jsstring \<Rightarrow> binary" where
  "textToBinary text = concat (map (\<lambda>c. padStart 8 (toBinary (unat c))) text)"

definition encode :: "Library \<Rightarrow> jsstring \<Rightarrow> jsstring option" where
  "encode lib text = encode_loop lib (textToBinary text) 0 []"

fun indexOf :: "jsstring \<Rightarrow> cu \<Rightarrow> nat option" where
  "indexOf [] c = None"
| "indexOf (x # xs) c = (if x = c then Some 0 else map_option Suc (indexOf xs c))"

fun symbolsToBinary :: "Library \<Rightarrow> jsstring \<Rightarrow> js_error + binary" where
  "symbolsToBinary lib [] = Inr []"
| "symbolsToBinary lib (c # cs) =
     (case indexOf (alphabet lib) c of
        None \<Rightarrow> Inl (Error ''Invalid Base character'')
      | Some index \<Rightarrow>
          (case symbolsToBinary lib cs of
             Inl err \<Rightarrow> Inl err
           | Inr rest \<Rightarrow> Inr (padStart (chunkSize lib) (toBinary index) @ rest)))"

text \<open>
  \<^verbatim>\<open>for (let i = 0; i < binary.length; i += 8) {
    const chunk = binary.substring(i, i + 8);
    if (chunk.length === 8) { output += String.fromCharCode(parseInt(chunk, 2)); } }\<close>
\<close>

function binaryToText :: "binary \<Rightarrow> jsstring" where
  "binaryToText bits =
     (if bits = [] then []
      else (if length (take 8 bits) = 8 then [fromCharCode (map_option int (parseBinary (take 8 bits)))]
            else []) @ binaryToText (drop 8 bits))"
  by pat_completeness auto
termination
  by (relation "measure length") auto

declare binaryToText.simps [simp del]

definition decode :: "Library \<Rightarrow> jsstring \<Rightarrow> js_error + jsstring" where
  "decode lib text =
     (case symbolsToBinary lib text of
        Inl err \<Rightarrow> Inl err
      | Inr binary' \<Rightarrow> Inr (binaryToText binary'))"

section \<open>The Tughra class\<close>

subsection \<open>Constructor\<close>

text \<open>\<open>Array.from(new Set(xs))\<close>: the first occurrence of every item, in order.\<close>

definition setItems :: "'a list \<Rightarrow> 'a list" where
  "setItems xs = foldl (\<lambda>acc x. if x \<in> set acc then acc else acc @ [x]) [] xs"

definition defaultCharset :: jsstring where
  "defaultCharset = str ''ABCDEFGHIJKLMNOPQRSTUVWXYZabcdefghijklmnopqrstuvwxyz0123456789+/=''"

text \<open>The object literal \<open>substitutionKey\<close>, entry by entry: \<open>a\<close> to \<open>q\<close>, \<open>b\<close> to \<open>w\<close>, ...\<close>

definition substitutionTable :: "(cu \<times> cu) list" where
  "substitutionTable =
     zip (str ''abcdefghijklmnopqrstuvwxyzABCDEFGHIJKLMNOPQRSTUVWXYZ'')
         (str ''qwertyuiopasdfghjklzxcvbnmQWERTYUIOPASDFGHJKLZXCVBNM'')"

text \<open>\<open>Object.fromEntries\<close> lets a later entry win; \<open>map_of\<close> takes the first.\<close>

definition fromEntries :: "(cu \<times> cu) list \<Rightarrow> (cu \<times> cu) list" where
  "fromEntries entries = rev entries"

definition checkKeyStrength :: "jsstring \<Rightarrow> js_error + unit" where
  "checkKeyStrength key =
     (if length key < 8 then Inl (Error ''Key must be at least 8 characters long.'') else Inr ())"

text \<open>
  \<open>constructor(mode, baseCharset, algorithm, encryptionKey = '', useBaseEncoding = false)\<close>
  for string arguments; a missing argument is the empty string. The test
  \<open>isNaN(item.charCodeAt(0))\<close> is made on every item of the key.
\<close>

definition "constructor" ::
  "string \<Rightarrow> jsstring \<Rightarrow> string \<Rightarrow> jsstring \<Rightarrow> bool \<Rightarrow> js_error + Tughra" where
  "constructor mode' baseCharset' algorithm' encryptionKey' useBaseEncoding' =
     (let items = setItems (stringIterator encryptionKey') in
      if \<exists>item \<in> set items. charCodeAt item 0 = None then
        Inl (Error ''Invalid character in encryption array. Only letters and numbers are allowed.'')
      else
        (let uniqueKeyOffsets = concat items in
         if algorithm' = ''default'' \<and> length uniqueKeyOffsets = 0 then
           Inl (Error ''keyOffsets must contain at least one valid value.'')
         else
           (case (if algorithm' \<noteq> ''default'' then checkKeyStrength encryptionKey' else Inr ()) of
              Inl err \<Rightarrow> Inl err
            | Inr _ \<Rightarrow>
            let charset = (if baseCharset' = [] then defaultCharset else baseCharset') in
            Inr \<lparr> keyOffsets = uniqueKeyOffsets,
                  mode = (if mode' = [] then ''encrypt'' else mode'),
                  useBaseEncoding = useBaseEncoding',
                  baseCharset = charset,
                  baseLibrary = baseEncodeDecode charset,
                  encryptionKey = TextEncoder_encode encryptionKey',
                  algorithm = (if algorithm' = [] then ''default'' else algorithm'),
                  substitutionKey = substitutionTable,
                  reverseSubstitutionKey = fromEntries (map (\<lambda>(key, value). (value, key)) substitutionTable),
                  a = 5, b = 8, m = 26 \<rparr>)))"

definition setAlgorithm :: "Tughra \<Rightarrow> string \<Rightarrow> Tughra" where
  "setAlgorithm e algorithm' = e\<lparr> algorithm := algorithm' \<rparr>"

subsection \<open>Base wrapping\<close>

text \<open>
  \<^verbatim>\<open>toBase(text) {
    if (!text) return text;
    try { return this.baseLibrary.encode(unescape(encodeURIComponent(text))); }
    catch (error) { console.error("Base encoding failed:", error); return text; } }\<close>
  \<open>fromBase\<close> has the same shape around
  \<open>decodeURIComponent(escape(this.baseLibrary.decode(text)))\<close>.
\<close>

definition toBase :: "Tughra \<Rightarrow> jsstring \<Rightarrow> jsstring option" where
  "toBase e text =
     (if text = [] then Some text
      else (case unescape_encodeURIComponent text of
              Inl err \<Rightarrow> Some text
            | Inr bytes \<Rightarrow> encode (baseLibrary e) bytes))"

definition fromBase :: "Tughra \<Rightarrow> jsstring \<Rightarrow> jsstring" where
  "fromBase e text =
     (if text = [] then text
      else (case decode (baseLibrary e) text of
              Inl err \<Rightarrow> text
            | Inr decoded \<Rightarrow>
                (case decodeURIComponent_escape decoded of
                   Inl err \<Rightarrow> text
                 | Inr result \<Rightarrow> result)))"

subsection \<open>Dispatch and cycles\<close>

definition processCycle :: "Tughra \<Rightarrow> jsstring \<Rightarrow> string \<Rightarrow> js_error + jsstring" where
  "processCycle e text mode' =
     (let enc = (mode' = ''encrypt''); alg = algorithm e in
      if alg = ''caesar'' then Inr (if enc then caesarEncrypt e text else caesarDecrypt e text)
      else if alg = ''vigenere'' then (if enc then vigenereEncrypt e text else vigenereDecrypt e text)
      else if alg = ''xor'' then (if enc then xorEncrypt e text else xorDecrypt e text)
      else if alg = ''ROT47'' then (if enc then Inr (encryptROT47 text) else decryptROT47 text)
      else if alg = ''Atbash'' then (if enc then Inr (encryptAtbash text) else decryptAtbash text)
      else if alg = ''Substitution'' then
        Inr (if enc then encryptSubstitution e text else decryptSubstitution e text)
      else if alg = ''Base64'' then (if enc then encryptBase64 text else decryptBase64 text)
      else if alg = ''ASCII'' then Inr (if enc then encryptAsciiShift e text else decryptAsciiShift e text)
      else if alg = ''Affine'' then Inr (if enc then encryptAffine e text else decryptAffine e text)
      else if alg = ''Unicode Shift'' then
        Inr (if enc then encryptUnicodeShift e text else decryptUnicodeShift e text)
      else if alg = ''Numeric'' then Inr (if enc then encryptNumeric text else decryptNumeric text)
      else if alg = ''Reversed Caesar'' then
        Inr (if enc then encryptReversedCaesar e text else decryptReversedCaesar e text)
      else if alg = ''ROT13'' then Inr (if enc then encryptROT13 text else decryptROT13 text)
      else if alg = ''ROT18'' then Inr (if enc then encryptROT18 text else decryptROT18 text)
      else if alg = ''ROT25'' then Inr (if enc then encryptROT25 text else decryptROT25 text)
      else if alg = ''ROT30'' then Inr (if enc then encryptROT30 text else decryptROT30 text)
      else if alg = ''XOR Pro'' then
        Inr (if enc then encryptXORPro text (keyOffsets e) else decryptXORPro text (keyOffsets e))
      else if alg = ''Affine Pro'' then (if enc then Inr (encryptAffinePro e text) else decryptAffinePro e text)
      else if alg = ''Substitution Pro'' then
        Inr (if enc then encryptSubstitutionPro e text else decryptSubstitutionPro e text)
      else Inr (if enc then TughraEncrypt e text else TughraDecrypt e text))"

text \<open>
  \<^verbatim>\<open>let resultText = text;
for (let i = 0; i < cycles; i++) { resultText = this._processCycle(resultText, this.mode); }\<close>
  An exception in a cycle leaves the loop.
\<close>

fun cycles_loop :: "Tughra \<Rightarrow> nat \<Rightarrow> jsstring \<Rightarrow> js_error + jsstring" where
  "cycles_loop e 0 resultText = Inr resultText"
| "cycles_loop e (Suc n) resultText =
     (case processCycle e resultText (mode e) of
        Inl err \<Rightarrow> Inl err
      | Inr next \<Rightarrow> cycles_loop e n next)"

text \<open>
  \<open>process(text, cycles)\<close> for an integer \<open>cycles\<close>. The result is \<open>None\<close> when the call
  does not return, \<open>Some (Inl err)\<close> when it throws and \<open>Some (Inr result)\<close> otherwise.
\<close>

definition process :: "Tughra \<Rightarrow> jsstring \<Rightarrow> int \<Rightarrow> (js_error + jsstring) option" where
  "process e text cycles =
     (let text1 = (if useBaseEncoding e \<and> mode e = ''decrypt'' then fromBase e text else text);
          cycles1 = (if algorithm e = ''xor'' \<or> algorithm e = ''ROT47'' \<or> algorithm e = ''ROT13''
                     then 1 else cycles)
      in case cycles_loop e (nat cycles1) text1 of
           Inl err \<Rightarrow> Some (Inl err)
         | Inr resultText \<Rightarrow>
             if useBaseEncoding e \<and> mode e = ''encrypt'' then map_option Inr (toBase e resultText)
             else Some (Inr resultText))"

text \<open>The case labels of the \<open>switch\<close> in \<open>_processCycle\<close>; every other identifier takes its \<open>default\<close> branch.\<close>

definition caseLabels :: "string list" where
  "caseLabels = [''caesar'', ''vigenere'', ''xor'', ''ROT47'', ''Atbash'', ''Substitution'', ''Base64'',
     ''ASCII'', ''Affine'', ''Unicode Shift'', ''Numeric'', ''Reversed Caesar'', ''ROT13'', ''ROT18'',
     ''ROT25'', ''ROT30'', ''XOR Pro'', ''Affine Pro'', ''Substitution Pro'']"



text \<open>An alphabet of 2981 distinct symbols, the units 0 to 2980: the smallest size with 9-bit chunks.\<close>

definition symbols2981 :: jsstring where
  "symbols2981 = map of_nat [0..<2981]"



section \<open>Properties of the constructor\<close>
lemma constructor_Inr:
  assumes "constructor md bc alg key ube = Inr e"
  shows "keyOffsets e = concat (setItems (stringIterator key))"
    and "mode e = (if md = [] then ''encrypt'' else md)"
    and "useBaseEncoding e = ube"
    and "baseLibrary e = baseEncodeDecode (if bc = [] then defaultCharset else bc)"
    and "encryptionKey e = TextEncoder_encode key"
    and "algorithm e = (if alg = [] then ''default'' else alg)"
    and "substitutionKey e = substitutionTable"
    and "reverseSubstitutionKey e = fromEntries (map (\<lambda>(key, value). (value, key)) substitutionTable)"
    and "a e = 5" and "b e = 8" and "m e = 26"
    and "alg = ''default'' \<longrightarrow> keyOffsets e \<noteq> []"
    and "alg \<noteq> ''default'' \<longrightarrow> 8 \<le> length key"
  using assms
  by (auto simp: constructor_def Let_def checkKeyStrength_def split: if_splits sum.splits)

lemma stringIterator_item_nonempty: "item \<in> set (stringIterator s) \<Longrightarrow> item \<noteq> []"
  by (induction s rule: stringIterator.induct) (auto split: if_splits)

lemma stringIterator_empty_iff: "stringIterator s = [] \<longleftrightarrow> s = []"
  by (induction s rule: stringIterator.induct) auto

lemma setItems_foldl_set:
  "set (foldl (\<lambda>acc x. if x \<in> set acc then acc else acc @ [x]) acc0 xs) = set acc0 \<union> set xs"
  by (induction xs arbitrary: acc0) auto

lemma setItems_set: "set (setItems xs) = set xs"
  by (simp add: setItems_def setItems_foldl_set)

lemma setItems_foldl_distinct:
  "distinct acc0 \<Longrightarrow> distinct (foldl (\<lambda>acc x. if x \<in> set acc then acc else acc @ [x]) acc0 xs)"
  by (induction xs arbitrary: acc0) auto

lemma setItems_distinct: "distinct (setItems xs)"
  by (simp add: setItems_def setItems_foldl_distinct)

lemma keyOffsets_nonempty: "key \<noteq> [] \<Longrightarrow> concat (setItems (stringIterator key)) \<noteq> []"
proof -
  assume "key \<noteq> []"
  then have "stringIterator key \<noteq> []" by (simp add: stringIterator_empty_iff)
  then obtain item where item: "item \<in> set (stringIterator key)"
    by (cases "stringIterator key") auto
  then have "item \<noteq> []" by (rule stringIterator_item_nonempty)
  moreover from item have "item \<in> set (setItems (stringIterator key))" by (simp add: setItems_set)
  ultimately show ?thesis by auto
qed

lemma constructor_succeeds:
  assumes "alg = ''default'' \<longrightarrow> key \<noteq> []"
      and "alg \<noteq> ''default'' \<longrightarrow> 8 \<le> length key"
  shows "\<exists>e. constructor md bc alg key ube = Inr e"
proof -
  have "\<And>item. item \<in> set (setItems (stringIterator key)) \<Longrightarrow> charCodeAt item 0 \<noteq> None"
    using stringIterator_item_nonempty by (auto simp: setItems_set charCodeAt_def)
  moreover have "alg = ''default'' \<longrightarrow> concat (setItems (stringIterator key)) \<noteq> []"
    using assms(1) keyOffsets_nonempty by blast
  ultimately show ?thesis using assms(2)
    by (auto simp: constructor_def Let_def checkKeyStrength_def split: if_splits sum.splits)
qed

lemma constructor_short_key:
  assumes "alg \<noteq> ''default''" and "length key < 8"
  shows "constructor md bc alg key ube = Inl (Error ''Key must be at least 8 characters long.'')"
proof -
  have "\<And>item. item \<in> set (setItems (stringIterator key)) \<Longrightarrow> charCodeAt item 0 \<noteq> None"
    using stringIterator_item_nonempty by (auto simp: setItems_set charCodeAt_def)
  then show ?thesis using assms
    by (auto simp: constructor_def Let_def checkKeyStrength_def split: if_splits sum.splits)
qed

subsection \<open>The default variant on code units\<close>

lemma fromCharCode_add: "fromCharCode (num_add (Some (uint (x::cu))) (Some (uint (y::cu)))) = x + y"
  by (simp add: fromCharCode_def num_add_def)

lemma fromCharCode_sub: "fromCharCode (num_sub (Some (uint (x::cu))) (Some (uint (y::cu)))) = x - y"
  by (simp add: fromCharCode_def num_sub_def)

lemma charCodeAtMod_nonempty:
  "key \<noteq> [] \<Longrightarrow> charCodeAtMod key i = Some (uint (key ! (i mod length key)))"
  by (simp add: charCodeAtMod_def charCodeAt_def)

lemma TughraEncrypt_length: "length (TughraEncrypt e t) = length t"
  by (simp add: TughraEncrypt_def)

lemma TughraDecrypt_length: "length (TughraDecrypt e t) = length t"
  by (simp add: TughraDecrypt_def)

lemma TughraEncrypt_nth:
  "keyOffsets e \<noteq> [] \<Longrightarrow> i < length t \<Longrightarrow>
   TughraEncrypt e t ! i = t ! i + keyOffsets e ! (i mod length (keyOffsets e))"
  by (simp add: TughraEncrypt_def charCodeAtMod_nonempty charCodeAt_def fromCharCode_add)

lemma TughraDecrypt_nth:
  "keyOffsets e \<noteq> [] \<Longrightarrow> i < length t \<Longrightarrow>
   TughraDecrypt e t ! i = t ! i - keyOffsets e ! (i mod length (keyOffsets e))"
  by (simp add: TughraDecrypt_def charCodeAtMod_nonempty charCodeAt_def fromCharCode_sub)

lemma Tughra_roundtrip:
  "keyOffsets d = keyOffsets e \<Longrightarrow> keyOffsets e \<noteq> [] \<Longrightarrow> TughraDecrypt d (TughraEncrypt e t) = t"
  by (rule nth_equalityI)
     (simp_all add: TughraDecrypt_length TughraEncrypt_length TughraDecrypt_nth TughraEncrypt_nth)

lemma unat_add_cu: "unat ((x::cu) + y) = (unat x + unat y) mod 65536"
  by (simp add: unat_word_ariths)

lemma uint_sub_cu: "uint ((x::cu) - y) = (uint x - uint y) mod 65536"
  by (simp add: uint_word_ariths)

subsection \<open>Dispatch\<close>

lemma processCycle_default:
  "algorithm e \<notin> set caseLabels \<Longrightarrow>
   processCycle e t md = Inr (if md = ''encrypt'' then TughraEncrypt e t else TughraDecrypt e t)"
  by (simp add: processCycle_def caseLabels_def Let_def)

lemma process_plain:
  "\<not> useBaseEncoding e \<Longrightarrow>
   process e t n = Some (cycles_loop e
     (nat (if algorithm e = ''xor'' \<or> algorithm e = ''ROT47'' \<or> algorithm e = ''ROT13'' then 1 else n)) t)"
  by (simp add: process_def Let_def split: sum.splits)

lemma cycles_loop_1: "cycles_loop e (Suc 0) t = processCycle e t (mode e)"
  by (simp split: sum.splits)

lemma str_abc_items: "concat (setItems (stringIterator (str ''abc''))) = str ''abc''"
  by (simp add: str_def setItems_def isHigh_def)

lemma default_notin_caseLabels: "''default'' \<notin> set caseLabels"
  by (simp add: caseLabels_def)

section \<open>The claims\<close>

text \<open>
  C8: with the default variant, key \<open>abc\<close>, text \<open>A\<close> and one cycle, encryption returns
  the single unit whose code is the code of \<open>A\<close> plus 97, the code of \<open>a\<close>; decrypting that
  output with the same key and cycle count gives \<open>A\<close> back.
\<close>

theorem C8_default_key_abc_text_A:
  "\<exists>enc dec.
     constructor ''encrypt'' [] ''default'' (str ''abc'') False = Inr enc \<and>
     constructor ''decrypt'' [] ''default'' (str ''abc'') False = Inr dec \<and>
     process enc (str ''A'') 1 = Some (Inr [of_char CHR ''A'' + 97]) \<and>
     process dec [of_char CHR ''A'' + 97] 1 = Some (Inr (str ''A''))"
proof -
  obtain enc where enc: "constructor ''encrypt'' [] ''default'' (str ''abc'') False = Inr enc"
    using constructor_succeeds [of "''default''" "str ''abc''" "''encrypt''" "[]" False]
    by (auto simp: str_def)
  obtain dec where dec: "constructor ''decrypt'' [] ''default'' (str ''abc'') False = Inr dec"
    using constructor_succeeds [of "''default''" "str ''abc''" "''decrypt''" "[]" False]
    by (auto simp: str_def)
  note fe = constructor_Inr(1,2,3,6) [OF enc] and fd = constructor_Inr(1,2,3,6) [OF dec]
  have ke: "keyOffsets enc = [97, 98, 99]" and kd: "keyOffsets dec = [97, 98, 99]"
    using fe(1) fd(1) by (simp_all add: str_abc_items) (simp_all add: str_def)
  have "process enc (str ''A'') 1 = Some (Inr [of_char CHR ''A'' + 97])"
    using fe(2,3,4) default_notin_caseLabels
    by (simp add: process_plain cycles_loop_1 processCycle_default TughraEncrypt_def ke
        charCodeAt_def charCodeAtMod_def num_add_def fromCharCode_def str_def)
  moreover have "process dec [of_char CHR ''A'' + 97] 1 = Some (Inr (str ''A''))"
    using fd(2,3,4) default_notin_caseLabels
    by (simp add: process_plain cycles_loop_1 processCycle_default TughraDecrypt_def kd
        charCodeAt_def charCodeAtMod_def num_sub_def fromCharCode_def str_def)
  ultimately show ?thesis using enc dec by blast
qed

lemma str_length: "length (str s) = length s"
  by (simp add: str_def)

lemma process_default_once:
  assumes "\<not> useBaseEncoding e" and "algorithm e \<notin> set caseLabels"
  shows "process e t 1 = Some (Inr (if mode e = ''encrypt'' then TughraEncrypt e t else TughraDecrypt e t))"
proof -
  have "algorithm e \<noteq> ''xor''" "algorithm e \<noteq> ''ROT47''" "algorithm e \<noteq> ''ROT13''"
    using assms(2) by (auto simp: caseLabels_def)
  then show ?thesis using assms
    by (simp add: process_plain cycles_loop_1 processCycle_default)
qed

text \<open>
  C10: the default variant works modulo \<open>2 ^ 16\<close> on UTF-16 code units. For an engine
  built with a non-empty key, one encryption cycle emits at every position the unit
  \<open>(c + offset) mod 65536\<close>, one decryption cycle emits \<open>(c - offset) mod 65536\<close>, where
  \<open>offset\<close> is the unit of \<open>keyOffsets\<close> at the position modulo its length; a sum above
  \<open>0xFFFF\<close> wraps around, and decrypting what was encrypted gives every string back.
\<close>

theorem C10_default_wraps_modulo_65536:
  assumes "key \<noteq> []"
  shows "\<exists>enc dec.
     constructor ''encrypt'' bc ''default'' key False = Inr enc \<and>
     constructor ''decrypt'' bc ''default'' key False = Inr dec \<and>
     keyOffsets enc \<noteq> [] \<and> keyOffsets dec = keyOffsets enc \<and>
     (\<forall>t. \<exists>c. process enc t 1 = Some (Inr c) \<and> length c = length t \<and>
        (\<forall>i<length t. unat (c ! i) =
           (unat (t ! i) + unat (keyOffsets enc ! (i mod length (keyOffsets enc)))) mod 65536) \<and>
        process dec c 1 = Some (Inr t)) \<and>
     (\<forall>t. \<exists>p. process dec t 1 = Some (Inr p) \<and> length p = length t \<and>
        (\<forall>i<length t. uint (p ! i) =
           (uint (t ! i) - uint (keyOffsets enc ! (i mod length (keyOffsets enc)))) mod 65536))"
proof -
  obtain enc where enc: "constructor ''encrypt'' bc ''default'' key False = Inr enc"
    using constructor_succeeds [of "''default''" key "''encrypt''" bc False] assms by auto
  obtain dec where dec: "constructor ''decrypt'' bc ''default'' key False = Inr dec"
    using constructor_succeeds [of "''default''" key "''decrypt''" bc False] assms by auto
  note fe = constructor_Inr [OF enc] and fd = constructor_Inr [OF dec]
  have ne: "keyOffsets enc \<noteq> []" using fe(12) by simp
  have same: "keyOffsets dec = keyOffsets enc" using fe(1) fd(1) by simp
  have pe: "process enc t 1 = Some (Inr (TughraEncrypt enc t))" for t
    using fe(2,3,6) default_notin_caseLabels by (simp add: process_default_once)
  have pd: "process dec t 1 = Some (Inr (TughraDecrypt dec t))" for t
    using fd(2,3,6) default_notin_caseLabels by (simp add: process_default_once)
  have "\<exists>c. process enc t 1 = Some (Inr c) \<and> length c = length t \<and>
        (\<forall>i<length t. unat (c ! i) =
           (unat (t ! i) + unat (keyOffsets enc ! (i mod length (keyOffsets enc)))) mod 65536) \<and>
        process dec c 1 = Some (Inr t)" for t
    using ne same
    by (simp add: pe pd TughraEncrypt_length TughraEncrypt_nth unat_add_cu Tughra_roundtrip)
  moreover have "\<exists>p. process dec t 1 = Some (Inr p) \<and> length p = length t \<and>
        (\<forall>i<length t. uint (p ! i) =
           (uint (t ! i) - uint (keyOffsets enc ! (i mod length (keyOffsets enc)))) mod 65536)" for t
    using ne same
    by (simp add: pd TughraDecrypt_length TughraDecrypt_nth uint_sub_cu)
  ultimately show ?thesis using enc dec ne same by blast
qed

lemma str_a_items: "concat (setItems (stringIterator (str ''a''))) = [97]"
  by (simp add: str_def setItems_def)

theorem C10_default_wraps_witness:
  "str ''a'' \<noteq> [] \<and>
   (\<exists>enc dec.
     constructor ''encrypt'' [] ''default'' (str ''a'') False = Inr enc \<and>
     constructor ''decrypt'' [] ''default'' (str ''a'') False = Inr dec \<and>
     process enc [0xFFFF] 1 = Some (Inr [96]) \<and>
     process dec [96] 1 = Some (Inr [0xFFFF]))"
proof -
  have ne: "str ''a'' \<noteq> []" by (simp add: str_def)
  from C10_default_wraps_modulo_65536 [OF ne, of "[]"]
  obtain enc dec where
    enc: "constructor ''encrypt'' [] ''default'' (str ''a'') False = Inr enc" and
    dec: "constructor ''decrypt'' [] ''default'' (str ''a'') False = Inr dec" and
    fwd: "\<forall>t. \<exists>c. process enc t 1 = Some (Inr c) \<and> length c = length t \<and>
        (\<forall>i<length t. unat (c ! i) =
           (unat (t ! i) + unat (keyOffsets enc ! (i mod length (keyOffsets enc)))) mod 65536) \<and>
        process dec c 1 = Some (Inr t)"
    by blast
  have k: "keyOffsets enc = [97]"
    using constructor_Inr(1) [OF enc] by (simp add: str_a_items)
  from fwd obtain c where c: "process enc [0xFFFF] 1 = Some (Inr c)" "length c = 1"
      "\<forall>i<1. unat (c ! i) = (unat ([0xFFFF::cu] ! i) + unat (keyOffsets enc ! (i mod length (keyOffsets enc)))) mod 65536"
      "process dec c 1 = Some (Inr [0xFFFF])"
    by (metis length_Cons list.size(3) One_nat_def)
  from c(3) have "unat (c ! 0) = 96" by (simp add: k)
  then have "c ! 0 = 96" by (simp add: word_unat_eq_iff)
  with c(2) have "c = [96]" by (cases c) auto
  with c enc dec ne show ?thesis by blast
qed

text \<open>
  C7: for the identifiers \<open>xor\<close>, \<open>ROT47\<close> and \<open>ROT13\<close>, \<open>process\<close> sets the cycle
  count to 1 whatever the caller gave: \<open>process(t, n)\<close> is \<open>process(t, 1)\<close> for every
  text and every integer \<open>n\<close> (so for every \<open>n \<ge> 1\<close>), in every mode and engine state.
\<close>

theorem C7_cycles_forced_to_one:
  "algorithm e \<in> {''xor'', ''ROT47'', ''ROT13''} \<Longrightarrow> process e t n = process e t 1"
  by (auto simp: process_def Let_def)

lemma rot13_Hello: "encryptROT13 (str ''Hello, World!'') = str ''Uryyb, Jbeyq!''"
  by (simp add: encryptROT13_def replaceLetters_def isLetter_def rot_def baseOf_def js_rem_def
      num_add_def fromCharCode_def str_def)

theorem C7_cycles_forced_witness:
  "\<exists>e. constructor ''encrypt'' [] ''ROT13'' (str ''abcdefgh'') False = Inr e \<and>
       algorithm e \<in> {''xor'', ''ROT47'', ''ROT13''} \<and>
       process e (str ''Hello, World!'') 3 = process e (str ''Hello, World!'') 1 \<and>
       process e (str ''Hello, World!'') 3 = Some (Inr (str ''Uryyb, Jbeyq!''))"
proof -
  obtain e where e: "constructor ''encrypt'' [] ''ROT13'' (str ''abcdefgh'') False = Inr e"
    using constructor_succeeds [of "''ROT13''" "str ''abcdefgh''" "''encrypt''" "[]" False]
    by (auto simp: str_length)
  note f = constructor_Inr(2,3,6) [OF e]
  have alg: "algorithm e \<in> {''xor'', ''ROT47'', ''ROT13''}" using f by simp
  have one: "process e (str ''Hello, World!'') 1 = Some (Inr (str ''Uryyb, Jbeyq!''))"
    using f by (simp add: process_plain cycles_loop_1 processCycle_def rot13_Hello)
  from C7_cycles_forced_to_one [OF alg, of "str ''Hello, World!''" 3] one e alg
  show ?thesis by simp
qed

lemma process_cong:
  assumes pc: "\<And>s md. processCycle e2 s md = processCycle e1 s md"
      and md: "mode e2 = mode e1"
      and ub: "useBaseEncoding e2 = useBaseEncoding e1"
      and bl: "baseLibrary e2 = baseLibrary e1"
      and forced: "(algorithm e2 = ''xor'' \<or> algorithm e2 = ''ROT47'' \<or> algorithm e2 = ''ROT13'') =
                   (algorithm e1 = ''xor'' \<or> algorithm e1 = ''ROT47'' \<or> algorithm e1 = ''ROT13'')"
  shows "process e2 t n = process e1 t n"
proof -
  have cl: "cycles_loop e2 k s = cycles_loop e1 k s" for k s
    by (induction k arbitrary: s) (simp_all add: pc md split: sum.splits)
  have tb: "toBase e2 s = toBase e1 s" for s
    unfolding toBase_def bl ..
  have fb: "fromBase e2 s = fromBase e1 s" for s
    unfolding fromBase_def bl ..
  show ?thesis
    unfolding process_def Let_def cl tb fb md ub forced ..
qed

lemma process_unknown_algorithm:
  assumes "algorithm e \<notin> set caseLabels"
  shows "process e t n = process (setAlgorithm e ''default'') t n"
proof (rule process_cong)
  show "processCycle e s md = processCycle (setAlgorithm e ''default'') s md" for s md
    using assms default_notin_caseLabels
    by (simp add: processCycle_default setAlgorithm_def TughraEncrypt_def TughraDecrypt_def)
  show "(algorithm e = ''xor'' \<or> algorithm e = ''ROT47'' \<or> algorithm e = ''ROT13'') =
        (algorithm (setAlgorithm e ''default'') = ''xor'' \<or> algorithm (setAlgorithm e ''default'') = ''ROT47''
          \<or> algorithm (setAlgorithm e ''default'') = ''ROT13'')"
    using assms by (auto simp: caseLabels_def setAlgorithm_def)
qed (simp_all add: setAlgorithm_def)

text \<open>
  C4, as the code has it: an identifier that is neither \<open>default\<close> nor a case label is
  not rejected. The constructor checks the key only: with a key of at least 8 units it
  returns an engine, and \<open>process\<close> on that engine is \<open>process\<close> with the default
  (Tughra) variant; with a shorter key it throws the key-strength error.
\<close>

theorem C4_unknown_identifier_uses_default:
  assumes "alg \<notin> set caseLabels" and "alg \<noteq> ''default''"
  shows "(8 \<le> length key \<longrightarrow>
            (\<exists>e. constructor md bc alg key ube = Inr e \<and>
                 (\<forall>t n. process e t n = process (setAlgorithm e ''default'') t n))) \<and>
         (length key < 8 \<longrightarrow>
            constructor md bc alg key ube = Inl (Error ''Key must be at least 8 characters long.''))"
proof (intro conjI impI)
  assume "8 \<le> length key"
  then obtain e where e: "constructor md bc alg key ube = Inr e"
    using constructor_succeeds [of alg key md bc ube] assms(2) by auto
  have "algorithm e \<notin> set caseLabels"
    using constructor_Inr(6) [OF e] assms(1) default_notin_caseLabels by (simp split: if_splits)
  then show "\<exists>e. constructor md bc alg key ube = Inr e \<and>
                 (\<forall>t n. process e t n = process (setAlgorithm e ''default'') t n)"
    using e process_unknown_algorithm by blast
next
  assume "length key < 8"
  then show "constructor md bc alg key ube = Inl (Error ''Key must be at least 8 characters long.'')"
    using assms(2) by (rule constructor_short_key [rotated])
qed

lemma str_abcdefgh_items: "concat (setItems (stringIterator (str ''abcdefgh''))) = str ''abcdefgh''"
  by (simp add: str_def setItems_def isHigh_def)

lemma nonexistent_notin_caseLabels: "''nonexistent'' \<notin> set caseLabels"
  by (simp add: caseLabels_def)

lemma nonexistent_constructed:
  "\<exists>e. constructor ''encrypt'' [] ''nonexistent'' (str ''abcdefgh'') False = Inr e \<and>
       process e (str ''A'') 1 = Some (Inr [of_char CHR ''A'' + 97])"
proof -
  obtain e where e: "constructor ''encrypt'' [] ''nonexistent'' (str ''abcdefgh'') False = Inr e"
    using constructor_succeeds [of "''nonexistent''" "str ''abcdefgh''" "''encrypt''" "[]" False]
    by (auto simp: str_length)
  note f = constructor_Inr(2,3,6) [OF e]
  have k: "keyOffsets e = str ''abcdefgh''"
    using constructor_Inr(1) [OF e] by (simp add: str_abcdefgh_items)
  have "process e (str ''A'') 1 = Some (Inr [of_char CHR ''A'' + 97])"
    using f nonexistent_notin_caseLabels
    by (simp add: process_default_once TughraEncrypt_def k
        charCodeAt_def charCodeAtMod_def num_add_def fromCharCode_def str_def)
  with e show ?thesis by blast
qed

theorem C4_nonexistent_counterexample:
  "\<not> isl (constructor ''encrypt'' [] ''nonexistent'' (str ''abcdefgh'') False) \<and>
   process (projr (constructor ''encrypt'' [] ''nonexistent'' (str ''abcdefgh'') False)) (str ''A'') 1
     = Some (Inr [of_char CHR ''A'' + 97])"
  using nonexistent_constructed by auto

theorem C4_unknown_identifier_witness:
  "''nonexistent'' \<notin> set caseLabels \<and> ''nonexistent'' \<noteq> ''default'' \<and>
   8 \<le> length (str ''abcdefgh'') \<and>
   (\<exists>e. constructor ''encrypt'' [] ''nonexistent'' (str ''abcdefgh'') False = Inr e \<and>
        process e (str ''A'') 1 = process (setAlgorithm e ''default'') (str ''A'') 1) \<and>
   constructor ''encrypt'' [] ''nonexistent'' (str ''abc'') False
     = Inl (Error ''Key must be at least 8 characters long.'')"
proof -
  have h1: "''nonexistent'' \<notin> set caseLabels" by (rule nonexistent_notin_caseLabels)
  have h2: "''nonexistent'' \<noteq> ''default''" by simp
  have l8: "8 \<le> length (str ''abcdefgh'')" and l3: "length (str ''abc'') < 8"
    by (simp_all add: str_length)
  from C4_unknown_identifier_uses_default [OF h1 h2, of "str ''abcdefgh''" "''encrypt''" "[]" False] l8
  have "\<exists>e. constructor ''encrypt'' [] ''nonexistent'' (str ''abcdefgh'') False = Inr e \<and>
        process e (str ''A'') 1 = process (setAlgorithm e ''default'') (str ''A'') 1"
    by blast
  moreover from C4_unknown_identifier_uses_default [OF h1 h2, of "str ''abc''" "''encrypt''" "[]" False] l3
  have "constructor ''encrypt'' [] ''nonexistent'' (str ''abc'') False
     = Inl (Error ''Key must be at least 8 characters long.'')"
    by blast
  ultimately show ?thesis using h1 h2 l8 by blast
qed

lemma modInverse_4_26: "modInverse 4 26 = None"
  by code_simp

lemma modInverse_5_26: "modInverse 5 26 = Some 21"
  by code_simp

lemma cycles_loop_throws:
  "0 < k \<Longrightarrow> processCycle e s (mode e) = Inl err \<Longrightarrow> cycles_loop e k s = Inl err"
  by (cases k) simp_all

lemma cycles_loop_total:
  "(\<And>s. \<exists>r. processCycle e s (mode e) = Inr r) \<Longrightarrow> \<exists>r. cycles_loop e k s = Inr r"
proof (induction k arbitrary: s)
  case 0
  then show ?case by simp
next
  case (Suc k)
  from Suc.prems obtain r where "processCycle e s (mode e) = Inr r" by blast
  with Suc show ?case by simp
qed

lemma processCycle_AffinePro:
  "algorithm e = ''Affine Pro'' \<Longrightarrow>
   processCycle e s md = (if md = ''encrypt'' then Inr (encryptAffinePro e s) else decryptAffinePro e s)"
  by (simp add: processCycle_def)

text \<open>
  C6, as the code has it: \<open>_modInverse(4, 26)\<close> is \<open>null\<close> and \<open>_modInverse(5, 26)\<close> is 21.
  The constructor takes no multiplier: it always sets \<open>a = 5\<close>, \<open>b = 8\<close>, \<open>m = 26\<close> and
  checks no inverse. For an engine whose \<open>a\<close> has no inverse modulo \<open>m\<close>, the
  \<open>Affine Pro\<close> variant throws the error \<open>No modular inverse exists for the given key 'a'\<close>
  in the first decryption cycle, and encrypts without any error.
\<close>

theorem C6_inverse_checked_when_decrypting:
  "modInverse 4 26 = None \<and> modInverse 5 26 = Some 21 \<and>
   (\<forall>md bc alg key ube e. constructor md bc alg key ube = Inr e \<longrightarrow> a e = 5 \<and> b e = 8 \<and> m e = 26) \<and>
   (\<forall>e t n. algorithm e = ''Affine Pro'' \<and> modInverse (a e) (m e) = None \<longrightarrow>
      (mode e \<noteq> ''encrypt'' \<and> 1 \<le> n \<longrightarrow> process e t n = Some (Inl (Error noInverseMessage))) \<and>
      (mode e = ''encrypt'' \<and> \<not> useBaseEncoding e \<longrightarrow> (\<exists>c. process e t n = Some (Inr c))))"
proof (intro conjI allI impI)
  show "modInverse 4 26 = None" by (rule modInverse_4_26)
  show "modInverse 5 26 = Some 21" by (rule modInverse_5_26)
next
  fix md bc alg key ube e
  assume "constructor md bc alg key ube = Inr e"
  from constructor_Inr(9,10,11) [OF this] show "a e = 5" "b e = 8" "m e = 26" .
next
  fix e :: Tughra and t :: jsstring and n :: int
  assume h: "algorithm e = ''Affine Pro'' \<and> modInverse (a e) (m e) = None"
  assume d: "mode e \<noteq> ''encrypt'' \<and> 1 \<le> n"
  have "processCycle e s (mode e) = Inl (Error noInverseMessage)" for s
    using h d by (simp add: processCycle_AffinePro decryptAffinePro_def)
  then have "cycles_loop e (nat n) s = Inl (Error noInverseMessage)" for s
    using d by (intro cycles_loop_throws) simp_all
  then show "process e t n = Some (Inl (Error noInverseMessage))"
    using h by (simp add: process_def)
next
  fix e :: Tughra and t :: jsstring and n :: int
  assume h: "algorithm e = ''Affine Pro'' \<and> modInverse (a e) (m e) = None"
  assume d: "mode e = ''encrypt'' \<and> \<not> useBaseEncoding e"
  have "\<exists>r. processCycle e s (mode e) = Inr r" for s
    using h d by (simp add: processCycle_AffinePro)
  then obtain r where "cycles_loop e (nat n) t = Inr r"
    using cycles_loop_total by blast
  then show "\<exists>c. process e t n = Some (Inr c)"
    using h d by (simp add: process_plain)
qed

lemma AffinePro_constructed:
  "\<exists>e. constructor md [] ''Affine Pro'' (str ''abcdefgh'') False = Inr e"
  using constructor_succeeds [of "''Affine Pro''" "str ''abcdefgh''" md "[]" False]
  by (auto simp: str_length)

lemma encryptAffinePro_4_b:
  "a e = 4 \<Longrightarrow> b e = 8 \<Longrightarrow> m e = 26 \<Longrightarrow> encryptAffinePro e (str ''b'') = str ''m''"
  by (simp add: encryptAffinePro_def replaceLetters_def isLetter_def caseBase_def toUpperCaseLetter_def
      js_rem_def num_add_def fromCharCode_def str_def)

theorem C6_noncoprime_encrypts_counterexample:
  "\<not> isl (constructor ''encrypt'' [] ''Affine Pro'' (str ''abcdefgh'') False) \<and>
   modInverse 4 26 = None \<and>
   process ((projr (constructor ''encrypt'' [] ''Affine Pro'' (str ''abcdefgh'') False))\<lparr>a := 4\<rparr>)
     (str ''b'') 1 = Some (Inr (str ''m''))"
proof -
  obtain e where e: "constructor ''encrypt'' [] ''Affine Pro'' (str ''abcdefgh'') False = Inr e"
    using AffinePro_constructed by blast
  note f = constructor_Inr(2,3,6,10,11) [OF e]
  have "process (e\<lparr>a := 4\<rparr>) (str ''b'') 1 = Some (Inr (str ''m''))"
    using f by (simp add: process_plain cycles_loop_1 processCycle_AffinePro encryptAffinePro_4_b)
  with e show ?thesis by (simp add: modInverse_4_26)
qed

theorem C6_inverse_checked_witness:
  "\<exists>e. constructor ''decrypt'' [] ''Affine Pro'' (str ''abcdefgh'') False = Inr e \<and>
       a e = 5 \<and> m e = 26 \<and>
       algorithm (e\<lparr>a := 4\<rparr>) = ''Affine Pro'' \<and> modInverse (a (e\<lparr>a := 4\<rparr>)) (m (e\<lparr>a := 4\<rparr>)) = None \<and>
       mode (e\<lparr>a := 4\<rparr>) \<noteq> ''encrypt'' \<and>
       process (e\<lparr>a := 4\<rparr>) (str ''m'') 1 = Some (Inl (Error noInverseMessage))"
proof -
  obtain e where e: "constructor ''decrypt'' [] ''Affine Pro'' (str ''abcdefgh'') False = Inr e"
    using AffinePro_constructed by blast
  note f = constructor_Inr(2,6,9,11) [OF e]
  have h: "algorithm (e\<lparr>a := 4\<rparr>) = ''Affine Pro'' \<and> modInverse (a (e\<lparr>a := 4\<rparr>)) (m (e\<lparr>a := 4\<rparr>)) = None"
    using f by (simp add: modInverse_4_26)
  have d: "mode (e\<lparr>a := 4\<rparr>) \<noteq> ''encrypt'' \<and> (1::int) \<le> 1"
    using f by simp
  from C6_inverse_checked_when_decrypting h d
  have "process (e\<lparr>a := 4\<rparr>) (str ''m'') 1 = Some (Inl (Error noInverseMessage))"
    by blast
  with e f h d show ?thesis by blast
qed

lemma indexOf_None_iff: "indexOf xs c = None \<longleftrightarrow> c \<notin> set xs"
  by (induction xs) auto

lemma symbolsToBinary_invalid:
  "\<exists>c \<in> set symbols. c \<notin> set (alphabet lib) \<Longrightarrow>
   symbolsToBinary lib symbols = Inl (Error ''Invalid Base character'')"
proof (induction symbols)
  case Nil
  then show ?case by simp
next
  case (Cons x xs)
  show ?case
  proof (cases "indexOf (alphabet lib) x")
    case None
    then show ?thesis by simp
  next
    case (Some i)
    then have "x \<in> set (alphabet lib)"
      using indexOf_None_iff [of "alphabet lib" x] by auto
    with Cons.prems have "\<exists>c \<in> set xs. c \<notin> set (alphabet lib)" by auto
    with Cons.IH Some show ?thesis by simp
  qed
qed

text \<open>
  C5, as the code has it: in decrypt mode with base encoding, when a symbol of the input is
  absent from the alphabet, \<open>baseLibrary.decode\<close> does throw the error
  \<open>Invalid Base character\<close>, but \<open>fromBase\<close> catches it and returns the input
  unchanged, and \<open>process\<close> runs its cycles on the undecoded text: the caller gets the
  result of those cycles, never the error of the codec.
\<close>

theorem C5_invalid_symbol_is_caught:
  assumes "useBaseEncoding e" and "mode e = ''decrypt''"
      and "\<exists>c \<in> set text. c \<notin> set (alphabet (baseLibrary e))"
  shows "decode (baseLibrary e) text = Inl (Error ''Invalid Base character'') \<and>
         fromBase e text = text \<and>
         process e text n = Some (cycles_loop e
           (nat (if algorithm e = ''xor'' \<or> algorithm e = ''ROT47'' \<or> algorithm e = ''ROT13'' then 1 else n))
           text) \<and>
         (algorithm e \<notin> set caseLabels \<longrightarrow> (\<exists>r. process e text n = Some (Inr r)))"
proof -
  have dec: "decode (baseLibrary e) text = Inl (Error ''Invalid Base character'')"
    using assms(3) by (simp add: decode_def symbolsToBinary_invalid)
  then have fb: "fromBase e text = text"
    by (simp add: fromBase_def)
  have pr: "process e text n = Some (cycles_loop e
           (nat (if algorithm e = ''xor'' \<or> algorithm e = ''ROT47'' \<or> algorithm e = ''ROT13'' then 1 else n))
           text)"
    using assms(1,2) fb by (simp add: process_def Let_def split: sum.splits)
  have "\<exists>r. process e text n = Some (Inr r)" if "algorithm e \<notin> set caseLabels"
  proof -
    have "\<exists>r. processCycle e s (mode e) = Inr r" for s
      using that by (simp add: processCycle_default)
    then have "\<exists>r. cycles_loop e k s = Inr r" for k s
      by (rule cycles_loop_total)
    then show ?thesis unfolding pr by simp
  qed
  with dec fb pr show ?thesis by blast
qed

lemma default_decrypt_base_constructed:
  "\<exists>e. constructor ''decrypt'' [] ''default'' (str ''abc'') True = Inr e"
  using constructor_succeeds [of "''default''" "str ''abc''" "''decrypt''" "[]" True]
  by (auto simp: str_def)

lemma bang_not_in_defaultCharset: "\<exists>c \<in> set (str ''!''). c \<notin> set defaultCharset"
  by (simp add: str_def defaultCharset_def)

lemma default_decrypt_base_bang:
  "constructor ''decrypt'' [] ''default'' (str ''abc'') True = Inr e \<Longrightarrow>
   process e (str ''!'') 1 = Some (Inr [of_char CHR ''!'' - 97])"
proof -
  assume e: "constructor ''decrypt'' [] ''default'' (str ''abc'') True = Inr e"
  note f = constructor_Inr(2,3,4,6) [OF e]
  have k: "keyOffsets e = [97, 98, 99]"
    using constructor_Inr(1) [OF e] by (simp add: str_abc_items) (simp add: str_def)
  have bad: "\<exists>c \<in> set (str ''!''). c \<notin> set (alphabet (baseLibrary e))"
    using f(3) bang_not_in_defaultCharset by (simp add: baseEncodeDecode_def)
  have "fromBase e (str ''!'') = str ''!''"
    using bad by (simp add: fromBase_def decode_def symbolsToBinary_invalid)
  then show ?thesis
    using f default_notin_caseLabels
    by (simp add: process_def cycles_loop_1 processCycle_default TughraDecrypt_def k
        charCodeAt_def charCodeAtMod_def num_sub_def fromCharCode_def str_def)
qed

theorem C5_invalid_symbol_returns_counterexample:
  "\<not> isl (constructor ''decrypt'' [] ''default'' (str ''abc'') True) \<and>
   of_char CHR ''!'' \<notin> set (alphabet (baseLibrary (projr (constructor ''decrypt'' [] ''default'' (str ''abc'') True)))) \<and>
   process (projr (constructor ''decrypt'' [] ''default'' (str ''abc'') True)) (str ''!'') 1
     = Some (Inr [of_char CHR ''!'' - 97])"
proof -
  obtain e where e: "constructor ''decrypt'' [] ''default'' (str ''abc'') True = Inr e"
    using default_decrypt_base_constructed by blast
  have "of_char CHR ''!'' \<notin> set (alphabet (baseLibrary e))"
    using constructor_Inr(4) [OF e] by (simp add: baseEncodeDecode_def defaultCharset_def str_def)
  with e default_decrypt_base_bang [OF e] show ?thesis by simp
qed

theorem C5_invalid_symbol_witness:
  "\<exists>e. constructor ''decrypt'' [] ''default'' (str ''abc'') True = Inr e \<and>
       useBaseEncoding e \<and> mode e = ''decrypt'' \<and>
       (\<exists>c \<in> set (str ''!''). c \<notin> set (alphabet (baseLibrary e))) \<and>
       decode (baseLibrary e) (str ''!'') = Inl (Error ''Invalid Base character'') \<and>
       fromBase e (str ''!'') = str ''!'' \<and>
       process e (str ''!'') 1 = Some (cycles_loop e 1 (str ''!''))"
proof -
  obtain e where e: "constructor ''decrypt'' [] ''default'' (str ''abc'') True = Inr e"
    using default_decrypt_base_constructed by blast
  note f = constructor_Inr(2,3,4,6) [OF e]
  have h1: "useBaseEncoding e" and h2: "mode e = ''decrypt''" using f by simp_all
  have h3: "\<exists>c \<in> set (str ''!''). c \<notin> set (alphabet (baseLibrary e))"
    using f(3) bang_not_in_defaultCharset by (simp add: baseEncodeDecode_def)
  from C5_invalid_symbol_is_caught [OF h1 h2 h3, of 1] f(4) e h1 h2 h3
  show ?thesis by auto
qed

lemma setItems_snoc:
  "setItems (xs @ [x]) = (if x \<in> set xs then setItems xs else setItems xs @ [x])"
  using setItems_set [of xs] by (simp add: setItems_def)

lemma setItems_first_occurrences: "setItems xs = rev (remdups (rev xs))"
  by (induction xs rule: rev_induct) (simp_all add: setItems_snoc, simp add: setItems_def)

lemma processCycle_keyOffsets_only:
  assumes "algorithm e1 \<notin> set caseLabels" and "algorithm e2 \<notin> set caseLabels"
      and "keyOffsets e1 = keyOffsets e2"
  shows "processCycle e1 s md = processCycle e2 s md"
  using assms by (simp add: processCycle_default TughraEncrypt_def TughraDecrypt_def)

text \<open>
  C9: for the default variant the effective key is \<open>keyOffsets\<close>, the key with repeated
  characters removed (the first occurrence of each kept, in order; a character is one
  item of the string iterator). Two keys with the same duplicate-free sequence, such as
  \<open>aab\<close> and \<open>ab\<close>, give the same \<open>process\<close> output for every text, mode, alphabet,
  base-encoding flag and cycle count.
\<close>

theorem C9_default_key_is_deduplicated:
  assumes "constructor md bc ''default'' k1 ube = Inr e1"
      and "constructor md bc ''default'' k2 ube = Inr e2"
      and "rev (remdups (rev (stringIterator k1))) = rev (remdups (rev (stringIterator k2)))"
  shows "keyOffsets e1 = concat (rev (remdups (rev (stringIterator k1)))) \<and>
         keyOffsets e2 = keyOffsets e1 \<and>
         process e1 t n = process e2 t n"
proof -
  note f1 = constructor_Inr [OF assms(1)] and f2 = constructor_Inr [OF assms(2)]
  have k1: "keyOffsets e1 = concat (rev (remdups (rev (stringIterator k1))))"
    using f1(1) by (simp add: setItems_first_occurrences)
  have k2: "keyOffsets e2 = keyOffsets e1"
    using f1(1) f2(1) assms(3) by (simp add: setItems_first_occurrences)
  have "process e1 t n = process e2 t n"
  proof (rule process_cong)
    show "processCycle e1 s md' = processCycle e2 s md'" for s md'
      using f1(6) f2(6) k2 default_notin_caseLabels
      by (intro processCycle_keyOffsets_only) simp_all
  qed (simp_all add: f1 f2)
  with k1 k2 show ?thesis by blast
qed

lemma items_aab: "rev (remdups (rev (stringIterator (str ''aab'')))) = [[97], [98]]"
  by (simp add: str_def isHigh_def)

lemma items_ab: "rev (remdups (rev (stringIterator (str ''ab'')))) = [[97], [98]]"
  by (simp add: str_def isHigh_def)

theorem C9_aab_ab_witness:
  "\<exists>e1 e2.
     constructor ''encrypt'' [] ''default'' (str ''aab'') True = Inr e1 \<and>
     constructor ''encrypt'' [] ''default'' (str ''ab'') True = Inr e2 \<and>
     rev (remdups (rev (stringIterator (str ''aab'')))) = rev (remdups (rev (stringIterator (str ''ab'')))) \<and>
     keyOffsets e1 = str ''ab'' \<and> keyOffsets e2 = str ''ab'' \<and>
     process e1 (str ''Hello'') 3 = process e2 (str ''Hello'') 3"
proof -
  obtain e1 where e1: "constructor ''encrypt'' [] ''default'' (str ''aab'') True = Inr e1"
    using constructor_succeeds [of "''default''" "str ''aab''" "''encrypt''" "[]" True]
    by (auto simp: str_def)
  obtain e2 where e2: "constructor ''encrypt'' [] ''default'' (str ''ab'') True = Inr e2"
    using constructor_succeeds [of "''default''" "str ''ab''" "''encrypt''" "[]" True]
    by (auto simp: str_def)
  have same: "rev (remdups (rev (stringIterator (str ''aab'')))) = rev (remdups (rev (stringIterator (str ''ab''))))"
    by (simp only: items_aab items_ab)
  from C9_default_key_is_deduplicated [OF e1 e2 same, of "str ''Hello''" 3]
  have "keyOffsets e1 = str ''ab''" "keyOffsets e2 = str ''ab''"
       "process e1 (str ''Hello'') 3 = process e2 (str ''Hello'') 3"
    by (simp_all add: items_aab) (simp_all add: str_def)
  with e1 e2 same show ?thesis by blast
qed

subsection \<open>Letters as offsets from their base\<close>

lemma isLetter_uint:
  "isLetter c \<longleftrightarrow> (65 \<le> uint c \<and> uint c \<le> 90) \<or> (97 \<le> uint c \<and> uint c \<le> 122)"
  by (simp add: isLetter_def word_le_def)

lemma baseOf_uint: "baseOf c = (if uint c \<le> 90 then 65 else 97)"
  by (simp add: baseOf_def word_le_def)


lemma letter_offset:
  "isLetter c \<Longrightarrow> 0 \<le> uint c - baseOf c \<and> uint c - baseOf c < 26"
  by (auto simp: isLetter_uint baseOf_uint)

lemma uint_small: "0 \<le> v \<Longrightarrow> v < 65536 \<Longrightarrow> uint (word_of_int v :: cu) = v"
  by (simp add: uint_word_of_int take_bit_int_eq_self)

lemma js_rem_nonneg: "0 \<le> x \<Longrightarrow> 0 < y \<Longrightarrow> js_rem x y = Some (x mod y)"
  by (cases "x = 0") (simp_all add: js_rem_def)

text \<open>The unit at offset \<open>r\<close> from the base of the letter \<open>c\<close>.\<close>

lemma letter_at_offset:
  assumes "isLetter c" and "0 \<le> r" and "r < 26"
  shows "isLetter (fromCharCode (Some (r + baseOf c)))"
    and "baseOf (fromCharCode (Some (r + baseOf c))) = baseOf c"
    and "uint (fromCharCode (Some (r + baseOf c))) = r + baseOf c"
proof -
  define w :: cu where "w = fromCharCode (Some (r + baseOf c))"
  have "uint (word_of_int (r + baseOf c) :: cu) = r + baseOf c"
    using assms(2,3) by (intro uint_small) (auto simp: baseOf_uint)
  then have u: "uint w = r + baseOf c"
    by (simp only: w_def fromCharCode_def option.case)
  have "isLetter w"
    using u assms(2,3) by (auto simp: isLetter_uint baseOf_uint split: if_splits)
  moreover have "baseOf w = baseOf c"
    using u assms(2,3) by (auto simp: baseOf_uint [of w] baseOf_uint [of c] split: if_splits)
  ultimately show "isLetter (fromCharCode (Some (r + baseOf c)))"
    and "baseOf (fromCharCode (Some (r + baseOf c))) = baseOf c"
    and "uint (fromCharCode (Some (r + baseOf c))) = r + baseOf c"
    using u by (simp_all only: w_def)
qed

lemma letter_at_own_offset: "fromCharCode (Some (uint c - baseOf c + baseOf c)) = c"
  by (simp add: fromCharCode_def)

lemma replaceLetters_inverse:
  assumes "\<And>c. isLetter c \<Longrightarrow> isLetter (g c) \<and> f (g c) = c"
  shows "replaceLetters f (replaceLetters g t) = t"
  using assms by (induction t) (auto simp: replaceLetters_def)

subsection \<open>Rotations\<close>








subsection \<open>Shifts and substitution tables\<close>






subsection \<open>Affine maps and XOR\<close>




lemma letter_map_inverse:
  assumes "\<And>x. 0 \<le> x \<Longrightarrow> x < 26 \<Longrightarrow> 0 \<le> g x \<and> g x < 26 \<and> h (g x) = x"
  shows "replaceLetters (\<lambda>c. fromCharCode (Some (h (uint c - baseOf c) + baseOf c)))
           (replaceLetters (\<lambda>c. fromCharCode (Some (g (uint c - baseOf c) + baseOf c))) t) = t"
proof (rule replaceLetters_inverse)
  fix c :: cu
  assume l: "isLetter c"
  let ?x = "uint c - baseOf c"
  note o = letter_offset [OF l]
  from assms [of ?x] o have g: "0 \<le> g ?x" "g ?x < 26" "h (g ?x) = ?x" by simp_all
  note la = letter_at_offset [OF l g(1,2)]
  have "fromCharCode (Some (h (uint (fromCharCode (Some (g ?x + baseOf c))) - baseOf c) + baseOf c)) = c"
    by (simp only: la(3) g(3) add_diff_cancel_right' letter_at_own_offset)
  with la show "isLetter (fromCharCode (Some (g (uint c - baseOf c) + baseOf c))) \<and>
        fromCharCode (Some (h (uint (fromCharCode (Some (g (uint c - baseOf c) + baseOf c))) -
           baseOf (fromCharCode (Some (g (uint c - baseOf c) + baseOf c)))) +
           baseOf (fromCharCode (Some (g (uint c - baseOf c) + baseOf c))))) = c"
    by simp
qed










subsection \<open>Variants that never throw\<close>


subsection \<open>Sample runs\<close>

lemma eight_unit_key_constructed:
  "length key = 8 \<Longrightarrow> \<exists>e. constructor md bc alg key ube = Inr e"
  by (rule constructor_succeeds) auto



lemma encode_abc_question:
  "encode \<lparr>alphabet = str ''abc'', chunkSize = 2\<rparr> (str ''?'') = Some (str ''aundefinedundefinedundefined'')"
  by code_simp






subsection \<open>ROT47 and Atbash\<close>

lemma Atbash_involution: "encryptAtbash (encryptAtbash t) = t"
proof -
  have eq: "encryptAtbash s = replaceLetters (\<lambda>c. fromCharCode (Some ((25 - (uint c - baseOf c)) + baseOf c))) s" for s
    by (simp add: encryptAtbash_def add.commute)
  show ?thesis
    unfolding eq by (rule letter_map_inverse [where g = "\<lambda>x. 25 - x" and h = "\<lambda>x. 25 - x"]) simp
qed

lemma ROT47_unit:
  assumes "33 \<le> uint c" and "uint c \<le> 126"
  shows "fromCharCode (num_add (Some 33) (js_rem (uint c + 14) 94))
         = (word_of_int (33 + (uint c - 33 + 47) mod 94) :: cu)"
    and "uint (word_of_int (33 + (uint c - 33 + 47) mod 94) :: cu) = 33 + (uint c - 33 + 47) mod 94"
proof -
  have "js_rem (uint c + 14) 94 = Some ((uint c + 14) mod 94)"
    using assms by (intro js_rem_nonneg) simp_all
  moreover have "uint c + 14 = uint c - 33 + 47" by simp
  ultimately show "fromCharCode (num_add (Some 33) (js_rem (uint c + 14) 94))
         = (word_of_int (33 + (uint c - 33 + 47) mod 94) :: cu)"
    by (simp only: num_add_def prod.case option.case fromCharCode_def)
  have "0 \<le> (uint c - 33 + 47) mod 94" "(uint c - 33 + 47) mod 94 < 94" by simp_all
  then show "uint (word_of_int (33 + (uint c - 33 + 47) mod 94) :: cu) = 33 + (uint c - 33 + 47) mod 94"
    by (intro uint_small) linarith+
qed

lemma ROT47_involution: "encryptROT47 (encryptROT47 t) = t"
proof -
  have one: "(if 33 \<le> d \<and> d \<le> 126 then fromCharCode (num_add (Some 33) (js_rem (uint d + 14) 94)) else d) = c"
    if d: "d = (if 33 \<le> c \<and> c \<le> 126 then fromCharCode (num_add (Some 33) (js_rem (uint c + 14) 94)) else c)"
    for c d :: cu
  proof (cases "33 \<le> c \<and> c \<le> 126")
    case False
    with d show ?thesis by auto
  next
    case True
    then have r: "33 \<le> uint c" "uint c \<le> 126" by (simp_all add: word_le_def)
    let ?y = "(uint c - 33 + 47) mod 94"
    note u = ROT47_unit [OF r]
    have dv: "d = word_of_int (33 + ?y)" using d True u(1) by simp
    have du: "uint d = 33 + ?y" using dv u(2) by simp
    have y: "0 \<le> ?y" "?y < 94" by simp_all
    then have dr: "33 \<le> uint d" "uint d \<le> 126" using du by linarith+
    then have in_range: "33 \<le> d \<and> d \<le> 126" by (simp add: word_le_def)
    have "(uint d - 33 + 47) mod 94 = (?y + 47) mod 94" using du by simp
    also have "\<dots> = (uint c - 33 + 47 + 47) mod 94" by (simp only: mod_add_left_eq)
    also have "uint c - 33 + 47 + 47 = uint c - 33 + 94 * 1" by simp
    also have "(uint c - 33 + 94 * 1) mod 94 = (uint c - 33) mod 94" by (rule mod_mult_self2)
    also have "\<dots> = uint c - 33" using r by simp
    finally have "(uint d - 33 + 47) mod 94 = uint c - 33" .
    then have "(word_of_int (33 + (uint d - 33 + 47) mod 94) :: cu) = c" by simp
    with in_range ROT47_unit(1) [OF dr] show ?thesis by simp
  qed
  show ?thesis
    by (induction t) (simp_all add: encryptROT47_def one)
qed

text \<open>
  C3 at its failing input. \<open>_encryptROT47\<close> and \<open>_encryptAtbash\<close> are involutions, and their
  comments say that decryption is the same function; but \<open>_decryptROT47\<close> and
  \<open>_decryptAtbash\<close> call \<open>this.encryptROT47\<close> and \<open>this.encryptAtbash\<close>, which do not exist,
  so decrypting what was encrypted throws a \<open>TypeError\<close> where the claim promises the
  original text.
\<close>

theorem C3_decrypt_ROT47_Atbash_throws:
  "(\<forall>t. encryptAtbash (encryptAtbash t) = t) \<and> (\<forall>t. encryptROT47 (encryptROT47 t) = t) \<and>
   encryptAtbash (str ''abc'') = str ''zyx'' \<and>
   processCycle (projr (constructor ''decrypt'' [] ''Atbash'' (str ''abcdefgh'') False)) (str ''zyx'') ''decrypt''
     = Inl (TypeError ''this.encryptAtbash is not a function'') \<and>
   process (projr (constructor ''decrypt'' [] ''Atbash'' (str ''abcdefgh'') False)) (str ''zyx'') 1
     = Some (Inl (TypeError ''this.encryptAtbash is not a function'')) \<and>
   encryptROT47 (str ''abc'') = str ''234'' \<and>
   process (projr (constructor ''decrypt'' [] ''ROT47'' (str ''abcdefgh'') False)) (str ''234'') 1
     = Some (Inl (TypeError ''this.encryptROT47 is not a function''))"
proof -
  obtain da where da: "constructor ''decrypt'' [] ''Atbash'' (str ''abcdefgh'') False = Inr da"
    using eight_unit_key_constructed [of "str ''abcdefgh''" "''decrypt''" "[]" "''Atbash''" False]
    by (auto simp: str_length)
  obtain dr where dr: "constructor ''decrypt'' [] ''ROT47'' (str ''abcdefgh'') False = Inr dr"
    using eight_unit_key_constructed [of "str ''abcdefgh''" "''decrypt''" "[]" "''ROT47''" False]
    by (auto simp: str_length)
  note fa = constructor_Inr(2,3,6) [OF da] and fr = constructor_Inr(2,3,6) [OF dr]
  have a1: "encryptAtbash (str ''abc'') = str ''zyx''"
    by (simp add: encryptAtbash_def replaceLetters_def isLetter_def baseOf_def fromCharCode_def str_def)
  have r1: "encryptROT47 (str ''abc'') = str ''234''"
    by (simp add: encryptROT47_def js_rem_def num_add_def fromCharCode_def str_def)
  have a2: "processCycle da s ''decrypt'' = Inl (TypeError ''this.encryptAtbash is not a function'')" for s
    using fa by (simp add: processCycle_def decryptAtbash_def)
  have r2: "processCycle dr s ''decrypt'' = Inl (TypeError ''this.encryptROT47 is not a function'')" for s
    using fr by (simp add: processCycle_def decryptROT47_def)
  have a3: "process da (str ''zyx'') 1 = Some (Inl (TypeError ''this.encryptAtbash is not a function''))"
    using fa a2 by (simp add: process_plain cycles_loop_1)
  have r3: "process dr (str ''234'') 1 = Some (Inl (TypeError ''this.encryptROT47 is not a function''))"
    using fr r2 by (simp add: process_plain cycles_loop_1)
  show ?thesis
    using Atbash_involution ROT47_involution a1 r1 a2 a3 r3 by (simp add: da dr)
qed

subsection \<open>Binary strings\<close>

lemma binaryValue_foldl:
  "foldl (\<lambda>acc bit. 2 * acc + (if bit then 1 else 0)) v bits = v * 2 ^ length bits + binaryValue bits"
proof (induction bits arbitrary: v)
  case Nil
  show ?case by (simp add: binaryValue_def)
next
  case (Cons x xs)
  let ?f = "\<lambda>acc bit. 2 * acc + (if bit then 1 else (0::nat))"
  let ?d = "if x then 1 else (0::nat)"
  have "foldl ?f v (x # xs) = foldl ?f (2 * v + ?d) xs" by simp
  also have "\<dots> = (2 * v + ?d) * 2 ^ length xs + binaryValue xs" by (rule Cons.IH)
  finally have l: "foldl ?f v (x # xs) = (2 * v + ?d) * 2 ^ length xs + binaryValue xs" .
  have "binaryValue (x # xs) = foldl ?f ?d xs" by (simp add: binaryValue_def)
  also have "\<dots> = ?d * 2 ^ length xs + binaryValue xs" by (rule Cons.IH)
  finally have r: "binaryValue (x # xs) = ?d * 2 ^ length xs + binaryValue xs" .
  show ?case unfolding l r by (simp add: algebra_simps)
qed

lemma binaryValue_Nil: "binaryValue [] = 0"
  by (simp add: binaryValue_def)

lemma binaryValue_snoc: "binaryValue (bits @ [x]) = 2 * binaryValue bits + (if x then 1 else 0)"
  by (simp add: binaryValue_def)

lemma binaryValue_Cons: "binaryValue (x # bits) = (if x then 2 ^ length bits else 0) + binaryValue bits"
  using binaryValue_foldl [of "if x then 1 else 0" bits] by (simp add: binaryValue_def)

lemma binaryValue_append: "binaryValue (xs @ ys) = binaryValue xs * 2 ^ length ys + binaryValue ys"
  using binaryValue_foldl [of "binaryValue xs" ys] by (simp add: binaryValue_def)

lemma binaryValue_zeros: "binaryValue (replicate k False) = 0"
  by (induction k) (simp_all add: binaryValue_Nil binaryValue_Cons)

lemma binaryValue_bound: "binaryValue bits < 2 ^ length bits"
  by (induction bits) (simp_all add: binaryValue_Nil binaryValue_Cons)

lemma binaryValue_inject:
  "length xs = length ys \<Longrightarrow> binaryValue xs = binaryValue ys \<Longrightarrow> xs = ys"
proof (induction xs ys rule: list_induct2)
  case Nil
  show ?case by simp
next
  case (Cons x xs y ys)
  have bx: "binaryValue xs < 2 ^ length ys" using binaryValue_bound [of xs] Cons.hyps by simp
  have by': "binaryValue ys < 2 ^ length ys" by (rule binaryValue_bound)
  from Cons.prems Cons.hyps bx by' have "x = y \<and> binaryValue xs = binaryValue ys"
    by (auto simp: binaryValue_Cons split: if_splits)
  with Cons.IH show ?case by simp
qed

lemma toBinary_small: "n < 2 \<Longrightarrow> toBinary n = [n = 1]"
  by (simp add: toBinary.simps [of n])

lemma toBinary_large: "\<not> n < 2 \<Longrightarrow> toBinary n = toBinary (n div 2) @ [odd n]"
  by (simp add: toBinary.simps [of n])

lemma toBinary_value: "binaryValue (toBinary n) = n"
proof (induction n rule: toBinary.induct)
  case (1 n)
  show ?case
  proof (cases "n < 2")
    case True
    then show ?thesis by (auto simp: toBinary_small binaryValue_Cons binaryValue_Nil)
  next
    case False
    with 1 have "binaryValue (toBinary (n div 2)) = n div 2" by simp
    moreover have "2 * (n div 2) + (if odd n then 1 else 0) = n" by (cases "odd n") auto
    ultimately show ?thesis using False by (simp add: toBinary_large binaryValue_snoc)
  qed
qed

lemma toBinary_length: "n < 2 ^ k \<Longrightarrow> 0 < k \<Longrightarrow> length (toBinary n) \<le> k"
proof (induction n arbitrary: k rule: toBinary.induct)
  case (1 n)
  show ?case
  proof (cases "n < 2")
    case True
    with 1(3) show ?thesis by (simp add: toBinary_small)
  next
    case False
    obtain j where k: "k = Suc j" using 1(3) by (cases k) auto
    from False 1(2) k have "0 < j" by (cases j) auto
    moreover from 1(2) k have "n div 2 < 2 ^ j" by auto
    ultimately have "length (toBinary (n div 2)) \<le> j" using 1(1) False by simp
    with False k show ?thesis by (simp add: toBinary_large)
  qed
qed

lemma padStart_length: "length bits \<le> k \<Longrightarrow> length (padStart k bits) = k"
  by (simp add: padStart_def)

lemma padStart_value: "binaryValue (padStart k bits) = binaryValue bits"
  by (simp add: padStart_def binaryValue_append binaryValue_zeros)

lemma padStart_toBinary:
  assumes "length bits = k" and "0 < k"
  shows "padStart k (toBinary (binaryValue bits)) = bits"
proof (rule binaryValue_inject)
  have "binaryValue bits < 2 ^ k" using binaryValue_bound [of bits] assms(1) by simp
  then have "length (toBinary (binaryValue bits)) \<le> k" using assms(2) by (rule toBinary_length)
  then show "length (padStart k (toBinary (binaryValue bits))) = length bits"
    using assms(1) by (simp add: padStart_length)
  show "binaryValue (padStart k (toBinary (binaryValue bits))) = binaryValue bits"
    by (simp add: padStart_value toBinary_value)
qed

lemma padEnd_length: "length bits \<le> k \<Longrightarrow> length (padEnd k bits) = k"
  by (simp add: padEnd_def)

subsection \<open>Decoding the bits of a byte string\<close>

lemma byte_bits_length: "unat c < 256 \<Longrightarrow> length (padStart 8 (toBinary (unat c))) = 8"
  by (rule padStart_length, rule toBinary_length) simp_all

lemma byte_bits_char:
  "fromCharCode (map_option int (parseBinary (padStart 8 (toBinary (unat (c::cu)))))) = c"
proof -
  have "toBinary (unat c) \<noteq> []" by (simp add: toBinary.simps [of "unat c"])
  then have "padStart 8 (toBinary (unat c)) \<noteq> []" by (simp add: padStart_def)
  then show ?thesis
    by (simp add: parseBinary_def padStart_value toBinary_value fromCharCode_def)
qed

lemma binaryToText_Nil: "binaryToText [] = []"
  by (simp add: binaryToText.simps [of "[]"])

lemma binaryToText_short: "length bits < 8 \<Longrightarrow> binaryToText bits = []"
  by (cases "bits = []") (simp_all add: binaryToText_Nil binaryToText.simps [of bits])

lemma binaryToText_group:
  assumes "length g = 8"
  shows "binaryToText (g @ rest) = fromCharCode (map_option int (parseBinary g)) # binaryToText rest"
proof -
  have "g @ rest \<noteq> []" using assms by auto
  then show ?thesis using assms by (simp add: binaryToText.simps [of "g @ rest"])
qed

lemma binaryToText_textToBinary:
  assumes "\<forall>c \<in> set bytes. c \<le> 255" and "length pad < 8"
  shows "binaryToText (textToBinary bytes @ pad) = bytes"
  using assms(1)
proof (induction bytes)
  case Nil
  show ?case using assms(2) by (simp add: textToBinary_def binaryToText_short)
next
  case (Cons c cs)
  from Cons.prems have "unat c < 256" by (simp add: word_le_nat_alt)
  then have l: "length (padStart 8 (toBinary (unat c))) = 8" by (rule byte_bits_length)
  have "textToBinary (c # cs) @ pad = padStart 8 (toBinary (unat c)) @ (textToBinary cs @ pad)"
    by (simp add: textToBinary_def)
  with Cons show ?case
    by (simp add: binaryToText_group [OF l] byte_bits_char)
qed

subsection \<open>The encoding loop\<close>

lemma indexOf_nth: "distinct xs \<Longrightarrow> i < length xs \<Longrightarrow> indexOf xs (xs ! i) = Some i"
proof (induction xs arbitrary: i)
  case Nil
  then show ?case by simp
next
  case (Cons x xs)
  show ?case
  proof (cases i)
    case 0
    then show ?thesis by simp
  next
    case (Suc j)
    with Cons.prems have "xs ! j \<noteq> x" "j < length xs" by auto
    with Cons Suc show ?thesis by auto
  qed
qed

lemma symbolsToBinary_Cons_valid:
  assumes "distinct (alphabet lib)" and "i < length (alphabet lib)"
      and "symbolsToBinary lib s = Inr rest"
  shows "symbolsToBinary lib (alphabet lib ! i # s) = Inr (padStart (chunkSize lib) (toBinary i) @ rest)"
  using assms by (simp add: indexOf_nth)

lemma encode_loop_decodes:
  assumes cs: "0 < chunkSize lib"
      and fits: "2 ^ chunkSize lib \<le> length (alphabet lib)"
      and dist: "distinct (alphabet lib)"
  shows "\<exists>s pad. encode_loop lib bits i out = Some (out @ s) \<and>
           symbolsToBinary lib s = Inr (drop i bits @ pad) \<and> length pad < chunkSize lib \<and>
           (length bits \<le> i \<longrightarrow> pad = [])"
proof (induction "length bits - i" arbitrary: i out rule: less_induct)
  case less
  let ?cs = "chunkSize lib"
  show ?case
  proof (cases "i < length bits")
    case False
    then have "encode_loop lib bits i out = Some (out @ [])"
      by (simp add: encode_loop.simps [of lib bits i out])
    moreover have "symbolsToBinary lib [] = Inr (drop i bits @ [])" using False by simp
    moreover have "length ([]::binary) < ?cs" using cs by simp
    ultimately show ?thesis by blast
  next
    case True
    let ?chunk = "padEnd ?cs (take ?cs (drop i bits))"
    let ?index = "binaryValue ?chunk"
    have len: "length ?chunk = ?cs" by (simp add: padEnd_length)
    then have ne: "?chunk \<noteq> []" using cs by auto
    have "?index < 2 ^ ?cs" using binaryValue_bound [of ?chunk] len by simp
    then have idx: "?index < length (alphabet lib)" using fits by simp
    have sym: "alphabetAt lib (parseBinary ?chunk) = [alphabet lib ! ?index]"
      using ne idx by (simp add: alphabetAt_def parseBinary_def)
    have step: "encode_loop lib bits i out = encode_loop lib bits (i + ?cs) (out @ [alphabet lib ! ?index])"
      using True by (simp add: encode_loop.simps [of lib bits i out] sym)
    have "length bits - (i + ?cs) < length bits - i" using True cs by simp
    from less [OF this, of "out @ [alphabet lib ! ?index]"]
    obtain s pad where
      r: "encode_loop lib bits (i + ?cs) (out @ [alphabet lib ! ?index]) = Some ((out @ [alphabet lib ! ?index]) @ s)"
      and d: "symbolsToBinary lib s = Inr (drop (i + ?cs) bits @ pad)"
      and p: "length pad < ?cs"
      and e: "length bits \<le> i + ?cs \<longrightarrow> pad = []"
      by blast
    have again: "padStart ?cs (toBinary ?index) = ?chunk"
      using len cs by (rule padStart_toBinary)
    have d': "symbolsToBinary lib (alphabet lib ! ?index # s) = Inr (?chunk @ drop (i + ?cs) bits @ pad)"
      using symbolsToBinary_Cons_valid [OF dist idx d] by (simp only: again)
    have res: "encode_loop lib bits i out = Some (out @ (alphabet lib ! ?index # s))"
      using step r by simp
    show ?thesis
    proof (cases "?cs \<le> length bits - i")
      case True
      then have "?chunk = take ?cs (drop i bits)" by (simp add: padEnd_def)
      moreover have "take ?cs (drop i bits) @ drop (i + ?cs) bits = drop i bits"
        by (metis add.commute append_take_drop_id drop_drop)
      ultimately have "?chunk @ drop (i + ?cs) bits @ pad = drop i bits @ pad" by simp
      with d' have "symbolsToBinary lib (alphabet lib ! ?index # s) = Inr (drop i bits @ pad)" by simp
      with res p \<open>i < length bits\<close> show ?thesis by (intro exI conjI) auto
    next
      case False
      with e have "pad = []" by simp
      with False have "?chunk @ drop (i + ?cs) bits @ pad
          = drop i bits @ replicate (?cs - (length bits - i)) False"
        by (simp add: padEnd_def)
      with d' have "symbolsToBinary lib (alphabet lib ! ?index # s)
          = Inr (drop i bits @ replicate (?cs - (length bits - i)) False)" by simp
      moreover have "length (replicate (?cs - (length bits - i)) False) < ?cs"
        using \<open>i < length bits\<close> cs by simp
      ultimately show ?thesis using res \<open>i < length bits\<close> by (intro exI conjI) auto
    qed
  qed
qed

subsection \<open>Chunk sizes\<close>

lemma ceilLog_range:
  assumes "2 \<le> n" and "n \<le> 2980" and "n \<noteq> 3"
  shows "0 < ceilLog n \<and> ceilLog n \<le> 8 \<and> 2 ^ ceilLog n \<le> n"
proof -
  consider "n = 2" | "4 \<le> n \<and> n \<le> 7" | "8 \<le> n \<and> n \<le> 20" | "21 \<le> n \<and> n \<le> 54"
    | "55 \<le> n \<and> n \<le> 148" | "149 \<le> n \<and> n \<le> 403" | "404 \<le> n \<and> n \<le> 1096"
    | "1097 \<le> n \<and> n \<le> 2980"
    using assms by linarith
  then show ?thesis
  proof cases
    case 1
    then show ?thesis by (simp add: ceilLog_def expFloors_def)
  next
    case 2
    then have "ceilLog n = 2" by (simp add: ceilLog_def expFloors_def)
    with 2 show ?thesis by simp
  next
    case 3
    then have "ceilLog n = 3" by (simp add: ceilLog_def expFloors_def)
    with 3 show ?thesis by simp
  next
    case 4
    then have "ceilLog n = 4" by (simp add: ceilLog_def expFloors_def)
    with 4 show ?thesis by simp
  next
    case 5
    then have "ceilLog n = 5" by (simp add: ceilLog_def expFloors_def)
    with 5 show ?thesis by simp
  next
    case 6
    then have "ceilLog n = 6" by (simp add: ceilLog_def expFloors_def)
    with 6 show ?thesis by simp
  next
    case 7
    then have "ceilLog n = 7" by (simp add: ceilLog_def expFloors_def)
    with 7 show ?thesis by simp
  next
    case 8
    then have "ceilLog n = 8" by (simp add: ceilLog_def expFloors_def)
    with 8 show ?thesis by simp
  qed
qed

lemma codec_round_trip:
  assumes cs: "0 < chunkSize lib" "chunkSize lib \<le> 8"
      and fits: "2 ^ chunkSize lib \<le> length (alphabet lib)"
      and dist: "distinct (alphabet lib)"
      and bytes: "\<forall>c \<in> set bytes. c \<le> 255"
  shows "\<exists>s. encode lib bytes = Some s \<and> decode lib s = Inr bytes"
proof -
  from encode_loop_decodes [OF cs(1) fits dist, of "textToBinary bytes" 0 "[]"]
  obtain s pad where s: "encode_loop lib (textToBinary bytes) 0 [] = Some s"
    and d: "symbolsToBinary lib s = Inr (textToBinary bytes @ pad)"
    and p: "length pad < chunkSize lib"
    by auto
  from p cs(2) have "length pad < 8" by simp
  with bytes have "binaryToText (textToBinary bytes @ pad) = bytes"
    by (rule binaryToText_textToBinary)
  with s d show ?thesis by (simp add: encode_def decode_def)
qed

lemma hex_library:
  "baseEncodeDecode (str ''0123456789ABCDEF'') = \<lparr>alphabet = str ''0123456789ABCDEF'', chunkSize = 3\<rparr>"
  by (simp add: baseEncodeDecode_def str_def ceilLog_def expFloors_def)

lemma hex_encode_AB:
  "encode \<lparr>alphabet = str ''0123456789ABCDEF'', chunkSize = 3\<rparr> [0xAB] = Some (str ''526'')"
  by code_simp

lemma hex_decode_526:
  "decode \<lparr>alphabet = str ''0123456789ABCDEF'', chunkSize = 3\<rparr> (str ''526'') = Inr [0xAB]"
  by code_simp

lemma abc_library: "baseEncodeDecode (str ''abc'') = \<lparr>alphabet = str ''abc'', chunkSize = 2\<rparr>"
  by (simp add: baseEncodeDecode_def str_def ceilLog_def expFloors_def)

text \<open>
  C2, as the code has it: the chunk size is \<open>Math.ceil(Math.log(base))\<close> with the natural
  logarithm. For an alphabet of distinct symbols with \<open>2 \<le> base \<le> 2980\<close> and
  \<open>base \<noteq> 3\<close> (the chunk size is then between 1 and 8 bits and every chunk value is below
  \<open>base\<close>), \<open>encode\<close> returns on every byte string and \<open>decode\<close> gives the bytes back.
  With the 16 hexadecimal digits the chunk size is 3: the byte \<open>0xAB\<close> is encoded as the
  three symbols \<open>526\<close>, and decoding them returns \<open>0xAB\<close>.
\<close>

theorem C2_codec_round_trip:
  assumes "distinct alph" and "2 \<le> length alph" and "length alph \<le> 2980" and "length alph \<noteq> 3"
      and "\<forall>c \<in> set bytes. c \<le> 255"
  shows "(\<exists>s. encode (baseEncodeDecode alph) bytes = Some s \<and>
              decode (baseEncodeDecode alph) s = Inr bytes) \<and>
         chunkSize (baseEncodeDecode (str ''0123456789ABCDEF'')) = 3 \<and>
         encode (baseEncodeDecode (str ''0123456789ABCDEF'')) [0xAB] = Some (str ''526'') \<and>
         decode (baseEncodeDecode (str ''0123456789ABCDEF'')) (str ''526'') = Inr [0xAB]"
proof -
  let ?lib = "baseEncodeDecode alph"
  have al: "alphabet ?lib = alph" and ch: "chunkSize ?lib = ceilLog (length alph)"
    by (simp_all add: baseEncodeDecode_def)
  note r = ceilLog_range [OF assms(2,3,4)]
  have "\<exists>s. encode ?lib bytes = Some s \<and> decode ?lib s = Inr bytes"
    using r assms(1,5) by (intro codec_round_trip) (simp_all add: al ch)
  then show ?thesis
    by (simp add: hex_library hex_encode_AB hex_decode_526)
qed

theorem C2_codec_round_trip_witness:
  "distinct (str ''0123456789ABCDEF'') \<and> length (str ''0123456789ABCDEF'') = 16 \<and> (0xAB :: cu) \<le> 255 \<and>
   encode (baseEncodeDecode (str ''0123456789ABCDEF'')) [0xAB] = Some (str ''526'') \<and>
   decode (baseEncodeDecode (str ''0123456789ABCDEF'')) (str ''526'') = Inr [0xAB]"
proof -
  have h: "distinct (str ''0123456789ABCDEF'')" "length (str ''0123456789ABCDEF'') = 16"
    by (simp_all add: str_def)
  have b: "\<forall>c \<in> set [0xAB :: cu]. c \<le> 255" by simp
  have "2 \<le> length (str ''0123456789ABCDEF'')" "length (str ''0123456789ABCDEF'') \<le> 2980"
       "length (str ''0123456789ABCDEF'') \<noteq> 3"
    by (simp_all add: h(2))
  from C2_codec_round_trip [OF h(1) this b] h show ?thesis by simp
qed

subsection \<open>An alphabet with 9-bit chunks\<close>

lemma ceilLog_2981: "ceilLog 2981 = 9"
  by (simp add: ceilLog_def expFloors_def)

lemma binaryToText_zero_groups: "binaryToText (replicate (8 * k) False) = replicate k 0"
proof (induction k)
  case 0
  show ?case by (simp add: binaryToText_Nil)
next
  case (Suc k)
  have "replicate (8 * Suc k) False = replicate 8 False @ replicate (8 * k) False"
    by (simp add: replicate_add [symmetric])
  moreover have "fromCharCode (map_option int (parseBinary (replicate 8 False))) = 0"
    by (simp add: parseBinary_def binaryValue_zeros fromCharCode_def)
  ultimately show ?case
    using Suc by (simp add: binaryToText_group)
qed

lemma zero_bytes_bits: "textToBinary (replicate k 0) = replicate (8 * k) False"
proof (induction k)
  case 0
  show ?case by (simp add: textToBinary_def)
next
  case (Suc k)
  have "padStart 8 (toBinary (unat (0::cu))) = replicate 8 False"
    by (simp add: padStart_def toBinary_small) (simp add: numeral_eq_Suc)
  with Suc show ?case
    by (simp add: textToBinary_def replicate_add [symmetric])
qed

lemma encode_zero_bytes:
  assumes "chunkSize lib = 9" and "alphabet lib \<noteq> []" and "alphabet lib ! 0 = 0"
  shows "encode lib (replicate 8 0) = Some (replicate 8 0)"
proof -
  have sym: "alphabetAt lib (parseBinary (replicate 9 False)) = [0]"
    using assms(2,3) by (simp add: alphabetAt_def parseBinary_def binaryValue_zeros)
  have chunk: "padEnd 9 (replicate j False) = replicate 9 False" if "j \<le> 9" for j
    using that by (simp add: padEnd_def replicate_add [symmetric])
  have last: "padEnd 9 [False] = replicate 9 False"
    by (simp add: padEnd_def numeral_eq_Suc)
  have bits: "textToBinary (replicate 8 (0::cu)) = replicate 64 False"
    using zero_bytes_bits [of 8] by simp
  have eight: "[0, 0, 0, 0, 0, 0, 0, 0] = replicate 8 (0::cu)"
    by (simp add: numeral_eq_Suc)
  show ?thesis
    unfolding encode_def bits
    by (simp add: encode_loop.simps assms(1) chunk last sym eight)
qed

lemma symbols2981_facts:
  "length symbols2981 = 2981" "symbols2981 ! 0 = 0" "distinct symbols2981" "symbols2981 \<noteq> []"
proof -
  show "length symbols2981 = 2981" by (simp add: symbols2981_def)
  show "symbols2981 ! 0 = 0" by (simp add: symbols2981_def)
  have "inj_on (of_nat :: nat \<Rightarrow> cu) {0..<2981}"
    by (rule inj_onI) (simp add: word_of_nat_eq_iff take_bit_nat_eq_self)
  then show "distinct symbols2981" by (simp add: symbols2981_def distinct_map)
  show "symbols2981 \<noteq> []" using \<open>length symbols2981 = 2981\<close> by auto
qed

lemma decode_zero_symbols:
  assumes "chunkSize lib = 9" and "indexOf (alphabet lib) 0 = Some 0"
  shows "decode lib (replicate 8 0) = Inr (replicate 9 0)"
proof -
  have pad: "padStart 9 (toBinary 0) = replicate 9 False"
    by (simp add: padStart_def toBinary_small) (simp add: numeral_eq_Suc)
  have "symbolsToBinary lib (replicate k 0) = Inr (replicate (9 * k) False)" for k
    by (induction k) (simp_all add: assms pad replicate_add [symmetric])
  then have "symbolsToBinary lib (replicate 8 0) = Inr (replicate (8 * 9) False)"
    by simp
  then show ?thesis
    by (simp only: decode_def sum.case binaryToText_zero_groups)
qed

lemma symbols2981_codec:
  "encode (baseEncodeDecode symbols2981) (replicate 8 0) = Some (replicate 8 0)"
  "decode (baseEncodeDecode symbols2981) (replicate 8 0) = Inr (replicate 9 0)"
proof -
  have cs: "chunkSize (baseEncodeDecode symbols2981) = 9"
    by (simp add: baseEncodeDecode_def symbols2981_facts(1) ceilLog_2981)
  have al: "alphabet (baseEncodeDecode symbols2981) = symbols2981"
    by (simp add: baseEncodeDecode_def)
  show "encode (baseEncodeDecode symbols2981) (replicate 8 0) = Some (replicate 8 0)"
    by (rule encode_zero_bytes) (simp_all add: cs al symbols2981_facts)
  have "indexOf symbols2981 (symbols2981 ! 0) = Some 0"
    by (rule indexOf_nth) (simp_all add: symbols2981_facts)
  then show "decode (baseEncodeDecode symbols2981) (replicate 8 0) = Inr (replicate 9 0)"
    by (intro decode_zero_symbols) (simp_all add: cs al symbols2981_facts(2))
qed

theorem C2_hex_three_symbols_counterexample:
  "map_option length (encode (baseEncodeDecode (str ''0123456789ABCDEF'')) [0xAB]) = Some 3 \<and>
   distinct (str ''abc'') \<and>
   encode (baseEncodeDecode (str ''abc'')) (str ''?'') = Some (str ''aundefinedundefinedundefined'') \<and>
   decode (baseEncodeDecode (str ''abc'')) (str ''aundefinedundefinedundefined'')
     = Inl (Error ''Invalid Base character'') \<and>
   distinct symbols2981 \<and> length symbols2981 = 2981 \<and>
   encode (baseEncodeDecode symbols2981) (replicate 8 0) = Some (replicate 8 0) \<and>
   decode (baseEncodeDecode symbols2981) (replicate 8 0) = Inr (replicate 9 0)"
proof -
  have "\<exists>c \<in> set (str ''aundefinedundefinedundefined''). c \<notin> set (alphabet (baseEncodeDecode (str ''abc'')))"
    by (simp add: abc_library) (simp add: str_def)
  then have "decode (baseEncodeDecode (str ''abc'')) (str ''aundefinedundefinedundefined'')
     = Inl (Error ''Invalid Base character'')"
    by (simp add: decode_def symbolsToBinary_invalid)
  moreover have "distinct (str ''abc'')" by (simp add: str_def)
  moreover have "map_option length (encode (baseEncodeDecode (str ''0123456789ABCDEF'')) [0xAB]) = Some 3"
    by (simp add: hex_library hex_encode_AB) (simp add: str_def)
  moreover have "encode (baseEncodeDecode (str ''abc'')) (str ''?'') = Some (str ''aundefinedundefinedundefined'')"
    by (simp add: abc_library encode_abc_question)
  ultimately show ?thesis
    using symbols2981_facts(1,3) symbols2981_codec by simp
qed

subsection \<open>UTF-8 of a well-formed string\<close>

















subsection \<open>Base wrapping and unwrapping\<close>



subsection \<open>Cycles on a set of texts closed under encryption\<close>





subsection \<open>A run with base encoding\<close>






subsection \<open>Texts that a variant does not give back\<close>


































subsection \<open>The Numeric variant\<close>

















subsection \<open>btoa and atob\<close>




















subsection \<open>TextEncoder and TextDecoder on a well-formed string\<close>

















subsection \<open>vigenere and xor\<close>













subsection \<open>Alphabets on which base wrapping loses the text\<close>
















subsection \<open>The cycle law\<close>





end
